theory Spec2Isabelle
  imports Main
begin

section \<open>Values of the host language\<close>

text \<open>
  The argument \<open>data\<close> of \<open>publish\<close> has type \<open>any\<close>. The constructors below
  cover undefined, null, booleans, integral numbers, strings and objects (arrays
  included). An object is represented by the text that \<open>JSON.stringify\<close> returns for it,
  which is all that \<open>publish\<close> reads of it. Numbers are mathematical integers: the
  rounding of doubles above \<open>2^53\<close>, fractions and NaN are outside this model.
\<close>

datatype jsany = Undefined | Null | Boolean bool | Number int | String string | Object string

definition LF :: char where "LF = CHR 0x0A"
definition CR :: char where "CR = CHR 0x0D"

fun truthy :: "jsany \<Rightarrow> bool" where
  "truthy Undefined = False"
| "truthy Null = False"
| "truthy (Boolean b) = b"
| "truthy (Number n) = (n \<noteq> 0)"
| "truthy (String s) = (s \<noteq> [])"
| "truthy (Object j) = True"

text \<open>\<open>typeof data === "object"\<close> holds of null and of objects.\<close>

fun typeof_object :: "jsany \<Rightarrow> bool" where
  "typeof_object Null = True"
| "typeof_object (Object j) = True"
| "typeof_object _ = False"

fun JSON_stringify :: "jsany \<Rightarrow> jsany" where
  "JSON_stringify Null = String ''null''"
| "JSON_stringify (Object j) = String j"
| "JSON_stringify d = d"

definition digit_char :: "nat \<Rightarrow> char" where
  "digit_char d = ''0123456789'' ! d"

function show_nat :: "nat \<Rightarrow> string" where
  "show_nat n = (if n < 10 then [digit_char n] else show_nat (n div 10) @ [digit_char (n mod 10)])"
  by pat_completeness auto
termination
  by (relation "measure (\<lambda>n. n)") auto

declare show_nat.simps [simp del]

definition show_int :: "int \<Rightarrow> string" where
  "show_int i = (if i < 0 then CHR ''-'' # show_nat (nat (- i)) else show_nat (nat i))"

text \<open>The conversion \<open>data + ""\<close> of a value to a string.\<close>

fun to_string :: "jsany \<Rightarrow> string" where
  "to_string Undefined = ''undefined''"
| "to_string Null = ''null''"
| "to_string (Boolean b) = (if b then ''true'' else ''false'')"
| "to_string (Number n) = show_int n"
| "to_string (String s) = s"
| "to_string (Object j) = ''[object Object]''"

text \<open>
  \<open>str.split(/[\r\n]+/)\<close>: the pieces between maximal runs of CR and LF characters. A run
  at the start or at the end of the string leaves an empty first or last piece, and the
  empty string splits into one empty piece.
\<close>

definition is_brk :: "char \<Rightarrow> bool" where
  "is_brk c = (c = CR \<or> c = LF)"

fun split_brk :: "string \<Rightarrow> string list" where
  "split_brk [] = [[]]"
| "split_brk (c # cs) =
     (if is_brk c then (if cs \<noteq> [] \<and> is_brk (hd cs) then split_brk cs else [] # split_brk cs)
      else (case split_brk cs of [] \<Rightarrow> [[c]] | l # ls \<Rightarrow> (c # l) # ls))"

text \<open>\<open>lines.join("\n")\<close>.\<close>

fun join_lf :: "string list \<Rightarrow> string" where
  "join_lf [] = []"
| "join_lf [l] = l"
| "join_lf (l # ls) = l @ [LF] @ join_lf ls"

text \<open>
  \<open>Number.parseInt(str, 10)\<close>: leading white space is skipped, one sign is accepted, and
  the longest run of decimal digits that follows is the value; with no digit there the
  result is NaN, which is \<open>None\<close> here. Characters are the code units \<open>0..255\<close> that a
  header value can hold.
\<close>

definition is_ws :: "char \<Rightarrow> bool" where
  "is_ws c = (c \<in> set [CHR 0x09, CHR 0x0A, CHR 0x0B, CHR 0x0C, CHR 0x0D, CHR 0x20, CHR 0xA0])"

definition is_digit :: "char \<Rightarrow> bool" where
  "is_digit c = (c \<in> set ''0123456789'')"

definition digit_val :: "char \<Rightarrow> nat" where
  "digit_val c = of_char c - 48"

definition digits_val :: "string \<Rightarrow> nat" where
  "digits_val ds = foldl (\<lambda>a c. 10 * a + digit_val c) 0 ds"

definition parseInt :: "string \<Rightarrow> int option" where
  "parseInt str =
     (let t = dropWhile is_ws str;
          neg = (t \<noteq> [] \<and> hd t = CHR ''-'');
          u = (if t \<noteq> [] \<and> (hd t = CHR ''-'' \<or> hd t = CHR ''+'') then tl t else t);
          ds = takeWhile is_digit u
      in if ds = [] then None
         else Some (if neg then - int (digits_val ds) else int (digits_val ds)))"

text \<open>\<open>array.slice(start)\<close> with one argument.\<close>

definition slice :: "int \<Rightarrow> 'a list \<Rightarrow> 'a list" where
  "slice start xs =
     (if start < 0 then drop (nat (max (int (length xs) + start) 0)) xs
      else drop (nat start) xs)"

section \<open>The data of the channel\<close>

record options =
  pingInterval :: int
  maxStreamDuration :: int
  clientRetryInterval :: int
  startId :: int
  historySize :: int
  rewind :: int

text \<open>\<open>Partial<Options>\<close>: every field may be left out.\<close>

record partial_options =
  pingInterval_opt :: "int option"
  maxStreamDuration_opt :: "int option"
  clientRetryInterval_opt :: "int option"
  startId_opt :: "int option"
  historySize_opt :: "int option"
  rewind_opt :: "int option"

text \<open>
  An entry of a subscription list is a string or a RegExp. A RegExp is represented by its
  \<open>test\<close> function on strings (the \<open>lastIndex\<close> state of a global RegExp is not modelled).
\<close>

datatype matcher = Str string | RegExp "string \<Rightarrow> bool"

text \<open>Of the request, \<open>subscribe\<close> reads only the header \<open>last-event-id\<close>.\<close>

record request =
  last_event_id :: "string option"

text \<open>
  A Connection object. \<open>cref\<close> is its identity as an object: the Set of clients compares
  references. \<open>res\<close> is the reference of the response object it holds; two connections
  may hold the same response.
\<close>

record connection =
  cref :: nat
  req :: request
  res :: nat
  events :: "matcher list option"

record message =
  msg_id :: int
  msg_eventName :: string
  msg_output :: string

text \<open>The calls the channel makes on a response object, in the order it makes them.\<close>

datatype res_call =
    WriteHead int "(string \<times> string) list"
  | FlushHeaders
  | Write string
  | End
  | On string

datatype log_entry = Info string | InfoPublish string nat | Warn string

text \<open>
  The fields of \<open>SSEChannel\<close>, followed by the part of the environment that the channel
  acts on: the response objects (each the list of calls made on it so far), the one-shot
  timers set by \<open>subscribe\<close>, the logger's output and the next fresh object reference.
  \<open>pingTimer\<close> is the interval of the running keepalive timer, if one is running.
\<close>

record channel =
  nextID :: int
  clients :: "connection list"
  messages :: "message list"
  active :: bool
  pingTimer :: "int option"
  options :: options
  verboseDebugging :: bool
  responses :: "nat \<Rightarrow> res_call list"
  timeouts :: "(int \<times> nat) list"
  logged :: "log_entry list"
  next_ref :: nat

section \<open>The operations of the channel\<close>

definition log_if :: "bool \<Rightarrow> log_entry \<Rightarrow> channel \<Rightarrow> channel" where
  "log_if b e s = (if b then s\<lparr>logged := logged s @ [e]\<rparr> else s)"

text \<open>One call on the response object with reference \<open>r\<close>.\<close>

definition call_res :: "nat \<Rightarrow> res_call \<Rightarrow> channel \<Rightarrow> channel" where
  "call_res r c s = s\<lparr>responses := (responses s)(r := responses s r @ [c])\<rparr>"

text \<open>Truth of an optional string: it is given and not empty.\<close>

definition name_truthy :: "string option \<Rightarrow> bool" where
  "name_truthy en = (case en of None \<Rightarrow> False | Some n \<Rightarrow> n \<noteq> [])"

definition name_or :: "string option \<Rightarrow> string \<Rightarrow> string" where
  "name_or en d = (case en of None \<Rightarrow> d | Some n \<Rightarrow> if n \<noteq> [] then n else d)"

definition hasEventMatch :: "matcher list option \<Rightarrow> string \<Rightarrow> bool" where
  "hasEventMatch subscriptionList name =
     (case subscriptionList of
        None \<Rightarrow> True
      | Some l \<Rightarrow> list_ex (\<lambda>pat. case pat of RegExp t \<Rightarrow> t name | Str p \<Rightarrow> p = name) l)"

text \<open>The data lines of a message: lines 94 to 102 of \<open>publish\<close>.\<close>

definition data_lines :: "jsany \<Rightarrow> string" where
  "data_lines data =
     (let d = (if typeof_object data then JSON_stringify data else data)
      in if truthy d then join_lf (map (\<lambda>str. ''data: '' @ str) (split_brk (to_string d)))
         else [])"

definition render :: "int \<Rightarrow> string option \<Rightarrow> jsany \<Rightarrow> string" where
  "render i en data =
     ''id: '' @ show_int i @ '' '' @ [LF]
     @ (if name_truthy en then ''event: '' @ name_or en [] @ [LF] else [])
     @ (if data_lines data \<noteq> [] then data_lines data else ''data: '')
     @ [LF, LF]"

definition ping_block :: string where
  "ping_block = ''data: '' @ [LF, LF]"

text \<open>The condition of the filter over the clients in \<open>publish\<close>.\<close>

definition receives :: "string option \<Rightarrow> connection \<Rightarrow> bool" where
  "receives en c =
     (\<not> name_truthy en \<or> events c = None \<or> hasEventMatch (events c) (name_or en []))"

definition deliver :: "string option \<Rightarrow> string \<Rightarrow> channel \<Rightarrow> channel" where
  "deliver en out s =
     foldl (\<lambda>s' c. call_res (res c) (Write out) s') s (filter (receives en) (clients s))"

text \<open>
  The loop \<open>while (messages.length > historySize) messages.shift()\<close>. On an empty array
  \<open>shift\<close> changes nothing, so the loop does not end when \<open>historySize\<close> is negative:
  the result \<open>None\<close> stands for a call that does not return.
\<close>

partial_function (option) trim :: "int \<Rightarrow> message list \<Rightarrow> message list option" where
  "trim h ms = (if int (length ms) > h then trim h (tl ms) else Some ms)"

declare trim.simps [code]

definition publish_tail ::
  "int option \<Rightarrow> string option \<Rightarrow> string \<Rightarrow> channel \<Rightarrow> (int option \<times> channel) option" where
  "publish_tail i en out s =
     (let s' = deliver en out s
      in case trim (historySize (options s')) (messages s') of
           None \<Rightarrow> None
         | Some ms \<Rightarrow> Some (i, s'\<lparr>messages := ms\<rparr>))"

definition publish :: "jsany \<Rightarrow> string option \<Rightarrow> channel \<Rightarrow> (int option \<times> channel) option" where
  "publish data en s0 =
     (let s1 = log_if (verboseDebugging s0)
                 (InfoPublish (name_or en ''[ping]'') (length (clients s0))) s0;
          s2 = log_if (\<not> active s1) (Warn ''ssePubsub.publish: Channel closed'') s1
      in if \<not> truthy data \<and> \<not> name_truthy en then
           (if clients s2 = [] then Some (None, s2)
            else publish_tail None en ping_block s2)
         else
           (let i = nextID s2;
                out = render i en data;
                name = name_or en [];
                s3 = s2\<lparr>nextID := nextID s2 + 1,
                        messages := messages s2
                          @ [\<lparr>msg_id = i, msg_eventName = name, msg_output = out\<rparr>]\<rparr>
            in publish_tail (Some i) (Some name) out s3))"

definition lastID :: "request \<Rightarrow> int option" where
  "lastID rq =
     (case last_event_id rq of
        None \<Rightarrow> None
      | Some h \<Rightarrow> if h \<noteq> [] then parseInt h else None)"

definition rewind_depth :: "request \<Rightarrow> channel \<Rightarrow> int" where
  "rewind_depth rq s =
     (case lastID rq of Some k \<Rightarrow> nextID s - 1 - k | None \<Rightarrow> rewind (options s))"

text \<open>The condition of the filter over the messages in \<open>subscribe\<close>.\<close>

definition replay_match :: "connection \<Rightarrow> message \<Rightarrow> bool" where
  "replay_match c m =
     (if events c \<noteq> None then hasEventMatch (events c) (msg_eventName m) else True)"

definition replay :: "connection \<Rightarrow> channel \<Rightarrow> message list" where
  "replay c s =
     (let rw = rewind_depth (req c) s
      in if rw \<noteq> 0 then slice (0 - rw) (filter (replay_match c) (messages s)) else [])"

definition sse_headers :: "(string \<times> string) list" where
  "sse_headers = [(''Content-Type'', ''text/event-stream''),
                  (''Cache-Control'', ''no-cache''),
                  (''Connection'', ''keep-alive'')]"

definition subscribe ::
  "request \<Rightarrow> nat \<Rightarrow> matcher list option \<Rightarrow> channel \<Rightarrow> connection \<times> channel" where
  "subscribe rq rs evs s0 =
     (let s1 = log_if (verboseDebugging s0) (Info ''ssePubsub.subscribe: subscribe'') s0;
          s2 = log_if (\<not> active s1) (Warn ''ssePubsub.subscribe: Channel closed'') s1;
          c = \<lparr>cref = next_ref s2, req = rq, res = rs, events = evs\<rparr>;
          s3 = call_res rs FlushHeaders
                 (call_res rs (WriteHead 200 sse_headers) (s2\<lparr>next_ref := Suc (next_ref s2)\<rparr>));
          body = ''retry: '' @ show_int (clientRetryInterval (options s3)) @ [LF, LF]
                 @ concat (map msg_output (replay c s3));
          s4 = call_res rs (Write body) s3;
          s5 = s4\<lparr>clients := clients s4 @ [c]\<rparr>;
          s6 = (if maxStreamDuration (options s5) \<noteq> 0
                then s5\<lparr>timeouts := timeouts s5 @ [(maxStreamDuration (options s5), cref c)]\<rparr>
                else s5)
      in (c, call_res rs (On ''finish'')
               (call_res rs (On ''error'') (call_res rs (On ''close'') s6))))"

definition unsubscribe :: "connection \<Rightarrow> channel \<Rightarrow> channel" where
  "unsubscribe c s0 =
     (let s1 = log_if (verboseDebugging s0) (Info ''ssePubsub.unsubscribe'') s0;
          s2 = call_res (res c) End s1
      in s2\<lparr>clients := filter (\<lambda>d. cref d \<noteq> cref c) (clients s2)\<rparr>)"

definition close :: "channel \<Rightarrow> channel" where
  "close s =
     (foldl (\<lambda>s' c. call_res (res c) End s') s (clients s))
       \<lparr>clients := [], messages := [], pingTimer := None, active := False\<rparr>"

definition getSubscriberCount :: "channel \<Rightarrow> nat" where
  "getSubscriberCount s = length (clients s)"

text \<open>\<open>res.finished\<close>: \<open>end\<close> has been called on the response.\<close>

definition finished :: "nat \<Rightarrow> channel \<Rightarrow> bool" where
  "finished r s = (End \<in> set (responses s r))"

text \<open>The callbacks that \<open>subscribe\<close> registers: the one-shot timer and the three listeners.\<close>

definition on_timeout :: "connection \<Rightarrow> channel \<Rightarrow> channel" where
  "on_timeout c s =
     (if \<not> finished (res c) s
      then unsubscribe c
             (log_if (verboseDebugging s) (Info ''ssePubsub.subscribe: unsubscribe via timeout'') s)
      else s)"

definition on_close :: "connection \<Rightarrow> channel \<Rightarrow> channel" where
  "on_close c s =
     unsubscribe c
       (log_if (verboseDebugging s) (Info ''ssePubsub.subscribe: unsubscribe via response close'') s)"

definition on_error :: "connection \<Rightarrow> channel \<Rightarrow> channel" where
  "on_error c s = log_if (verboseDebugging s) (Warn ''ssePubsub.subscribe: response error'') s"

definition on_finish :: "connection \<Rightarrow> channel \<Rightarrow> channel" where
  "on_finish c s = log_if (verboseDebugging s) (Info ''ssePubsub.subscribe: response finish'') s"

text \<open>The constructor. A field left out of its argument takes the default of the parameter list.\<close>

definition dflt :: "'a option \<Rightarrow> 'a \<Rightarrow> 'a" where
  "dflt v d = (case v of None \<Rightarrow> d | Some x \<Rightarrow> x)"

definition SSEChannel :: "partial_options \<Rightarrow> bool \<Rightarrow> channel" where
  "SSEChannel p verbose =
     (let opts = \<lparr>pingInterval = dflt (pingInterval_opt p) 30000,
                  maxStreamDuration = dflt (maxStreamDuration_opt p) 0,
                  clientRetryInterval = dflt (clientRetryInterval_opt p) 10000,
                  startId = dflt (startId_opt p) 1,
                  historySize = dflt (historySize_opt p) 1,
                  rewind = dflt (rewind_opt p) 0\<rparr>
      in \<lparr>nextID = startId opts, clients = [], messages = [], active = True,
          pingTimer = (if pingInterval opts \<noteq> 0 then Some (pingInterval opts) else None),
          options = opts, verboseDebugging = verbose, responses = (\<lambda>r. []),
          timeouts = [], logged = [], next_ref = 0\<rparr>)"

definition no_options :: partial_options where
  "no_options = \<lparr>pingInterval_opt = None, maxStreamDuration_opt = None,
                 clientRetryInterval_opt = None, startId_opt = None,
                 historySize_opt = None, rewind_opt = None\<rparr>"

section \<open>Sequences of calls\<close>

text \<open>
  Everything a channel meets after its construction: the calls of its public methods and
  the callbacks fired by timers and response events. The keepalive timer fires as
  \<open>Publish Undefined None\<close>.
\<close>

datatype call =
    Publish jsany "string option"
  | Subscribe request nat "matcher list option"
  | Unsubscribe connection
  | Close
  | TimeoutFires connection
  | CloseEvent connection
  | ErrorEvent connection
  | FinishEvent connection

text \<open>One call: the id it returns, if any, and the state after it.\<close>

fun exec :: "call \<Rightarrow> channel \<Rightarrow> (int option \<times> channel) option" where
  "exec (Publish data en) s = publish data en s"
| "exec (Subscribe rq rs evs) s = Some (None, snd (subscribe rq rs evs s))"
| "exec (Unsubscribe c) s = Some (None, unsubscribe c s)"
| "exec Close s = Some (None, close s)"
| "exec (TimeoutFires c) s = Some (None, on_timeout c s)"
| "exec (CloseEvent c) s = Some (None, on_close c s)"
| "exec (ErrorEvent c) s = Some (None, on_error c s)"
| "exec (FinishEvent c) s = Some (None, on_finish c s)"

text \<open>A sequence of calls: the ids returned, in order, and the final state.\<close>

fun run :: "call list \<Rightarrow> channel \<Rightarrow> (int list \<times> channel) option" where
  "run [] s = Some ([], s)"
| "run (c # cs) s =
     (case exec c s of
        None \<Rightarrow> None
      | Some (r, s') \<Rightarrow>
          (case run cs s' of
             None \<Rightarrow> None
           | Some (ids, s'') \<Rightarrow> Some ((case r of None \<Rightarrow> [] | Some i \<Rightarrow> [i]) @ ids, s'')))"

section \<open>Auxiliary notions for the statements\<close>

text \<open>The ids of a history are consecutive and end just below \<open>n\<close>.\<close>

definition contig :: "int \<Rightarrow> message list \<Rightarrow> bool" where
  "contig n ms = (map msg_id ms = map (\<lambda>i. n - int (length ms) + int i) [0..<length ms])"

text \<open>The history respects its bound and holds consecutive ids ending just below \<open>nextID\<close>.\<close>

definition hist_ok :: "channel \<Rightarrow> bool" where
  "hist_ok s = (int (length (messages s)) \<le> historySize (options s) \<and> contig (nextID s) (messages s))"

text \<open>The logger's output after the two logging statements that open \<open>publish\<close>.\<close>

definition publish_logged :: "string option \<Rightarrow> channel \<Rightarrow> log_entry list" where
  "publish_logged en s =
     logged s
     @ (if verboseDebugging s then [InfoPublish (name_or en ''[ping]'') (length (clients s))] else [])
     @ (if active s then [] else [Warn ''ssePubsub.publish: Channel closed''])"

text \<open>The pieces of \<open>data\<close> that \<open>publish\<close> turns into data lines: \<open>data\<close>, sent through
  \<open>JSON.stringify\<close> when it is an object, is split by \<open>split(/[\r\n]+/)\<close> when it is truthy,
  and counts as one empty piece when it is falsy.\<close>

definition payload_pieces :: "jsany \<Rightarrow> string list" where
  "payload_pieces data =
     (let d = (if typeof_object data then JSON_stringify data else data)
      in if truthy d then split_brk (to_string d) else [[]])"

text \<open>
  A header value with a leading integer: after white space and at most one sign comes a
  decimal digit. These are the strings that \<open>parseInt\<close> reads as a number.
\<close>

fun leading_int :: "string \<Rightarrow> bool" where
  "leading_int [] = False"
| "leading_int (c # cs) =
     (if is_ws c then leading_int cs
      else if c = CHR ''-'' \<or> c = CHR ''+'' then cs \<noteq> [] \<and> is_digit (hd cs)
      else is_digit c)"

section \<open>The rules in the words of the specification\<close>


text \<open>The lines of a payload in the words of the specification: the payload is split at every
  line break, a line break being CR LF, a lone LF or a lone CR. Two line breaks in a row
  enclose an empty line.\<close>

fun spec_lines :: "string \<Rightarrow> string list" where
  "spec_lines [] = [[]]"
| "spec_lines (c # cs) =
     (if c = CR \<and> cs \<noteq> [] \<and> hd cs = LF then spec_lines cs
      else if is_brk c then [] # spec_lines cs
      else (case spec_lines cs of [] \<Rightarrow> [[c]] | l # ls \<Rightarrow> (c # l) # ls))"

text \<open>The message block in the words of the specification (section 6): the id line, the event
  line when the name is not empty, one data line for each line of the payload, and the
  closing blank line.\<close>

definition spec_block :: "int \<Rightarrow> string \<Rightarrow> string \<Rightarrow> string" where
  "spec_block i name payload =
     ''id: '' @ show_int i @ '' '' @ [LF]
     @ (if name \<noteq> [] then ''event: '' @ name @ [LF] else [])
     @ concat (map (\<lambda>l. ''data: '' @ l @ [LF]) (spec_lines payload))
     @ [LF]"

section \<open>Example inputs\<close>

text \<open>A channel that keeps two messages, and two publishes of named events on it.\<close>

definition opts2 :: partial_options where
  "opts2 = no_options\<lparr>historySize_opt := Some 2\<rparr>"

definition abc_calls :: "call list" where
  "abc_calls = [Publish (String ''a'') (Some ''ev''), Publish (String ''b'') (Some ''ev'')]"

definition st2 :: channel where
  "st2 = snd (the (run abc_calls (SSEChannel opts2 False)))"

text \<open>A default channel with one subscriber that has no filter and sent no header.\<close>

definition sub_calls :: "call list" where
  "sub_calls = [Subscribe \<lparr>last_event_id = None\<rparr> 7 None]"

definition st_sub :: channel where
  "st_sub = snd (the (run sub_calls (SSEChannel no_options False)))"

text \<open>A default channel after one publish, and connections for the examples below.\<close>

definition one_call :: "call list" where
  "one_call = [Publish (String ''a'') (Some ''ev'')]"

definition st1 :: channel where
  "st1 = snd (the (run one_call (SSEChannel no_options False)))"

definition conn_plain :: connection where
  "conn_plain = \<lparr>cref = 0, req = \<lparr>last_event_id = None\<rparr>, res = 7, events = None\<rparr>"

definition conn_abc :: connection where
  "conn_abc = \<lparr>cref = 0, req = \<lparr>last_event_id = Some ''abc''\<rparr>, res = 7, events = None\<rparr>"

definition conn_1abc :: connection where
  "conn_1abc = \<lparr>cref = 0, req = \<lparr>last_event_id = Some ''1abc''\<rparr>, res = 7, events = None\<rparr>"

text \<open>A default channel with one subscriber whose filter is the single string \<open>foo\<close>.\<close>

definition foo_calls :: "call list" where
  "foo_calls = [Subscribe \<lparr>last_event_id = None\<rparr> 7 (Some [Str ''foo''])]"

definition st_foo :: channel where
  "st_foo = snd (the (run foo_calls (SSEChannel no_options False)))"

text \<open>A default channel that has been closed.\<close>

definition closed0 :: channel where
  "closed0 = close (SSEChannel no_options False)"

text \<open>A default channel with two subscribers on two response objects.\<close>

definition two_sub_calls :: "call list" where
  "two_sub_calls = [Subscribe \<lparr>last_event_id = None\<rparr> 7 None,
                    Subscribe \<lparr>last_event_id = None\<rparr> 8 None]"

definition st_two :: channel where
  "st_two = snd (the (run two_sub_calls (SSEChannel no_options False)))"

definition conn_second :: connection where
  "conn_second = \<lparr>cref = 1, req = \<lparr>last_event_id = None\<rparr>, res = 8, events = None\<rparr>"

text \<open>Two calls that follow the first \<open>unsubscribe\<close> of the first of the two subscribers.\<close>

definition after_unsub_calls :: "call list" where
  "after_unsub_calls = [Publish (String ''a'') (Some ''ev''), CloseEvent conn_plain]"

definition st_after_unsub :: channel where
  "st_after_unsub = snd (the (run after_unsub_calls (unsubscribe conn_plain st_two)))"

text \<open>A payload with an empty line, and the block \<open>publish\<close> renders for it.\<close>

definition blank_line_payload :: string where
  "blank_line_payload = ''a'' @ [LF, LF] @ ''b''"

definition blank_line_block :: string where
  "blank_line_block
     = ''id: 1 '' @ [LF] @ ''event: ev'' @ [LF] @ ''data: a'' @ [LF] @ ''data: b'' @ [LF, LF]"

text \<open>A client that reconnects to the channel \<open>st2\<close> (next id \<open>3\<close>) with the last event id
  \<open>3\<close>, an id the channel has not assigned yet.\<close>

definition conn_future :: connection where
  "conn_future = \<lparr>cref = 0, req = \<lparr>last_event_id = Some ''3''\<rparr>, res = 7, events = None\<rparr>"

text \<open>Two publishes of differently named events, and a client with the filter \<open>x\<close> that has
  seen the first of them.\<close>

definition xy_calls :: "call list" where
  "xy_calls = [Publish (String ''a'') (Some ''x''), Publish (String ''b'') (Some ''y'')]"

definition st_xy :: channel where
  "st_xy = snd (the (run xy_calls (SSEChannel opts2 False)))"

definition conn_x_seen :: connection where
  "conn_x_seen = \<lparr>cref = 0, req = \<lparr>last_event_id = Some ''1''\<rparr>, res = 7,
                   events = Some [Str ''x'']\<rparr>"

section \<open>Basic facts\<close>

lemma trim_nonneg: "0 \<le> h \<Longrightarrow> trim h ms = Some (drop (length ms - nat h) ms)"
proof (induction ms)
  case Nil
  then show ?case by (subst trim.simps) simp
next
  case (Cons m ms)
  show ?case
  proof (cases "int (length (m # ms)) > h")
    case True
    then have "trim h (m # ms) = trim h ms" by (subst trim.simps) simp
    also have "\<dots> = Some (drop (length ms - nat h) ms)" using Cons by simp
    also have "drop (length ms - nat h) ms = drop (length (m # ms) - nat h) (m # ms)"
      using True Cons.prems by (simp add: Suc_diff_le nat_le_iff)
    finally show ?thesis .
  next
    case False
    then have "trim h (m # ms) = Some (m # ms)" by (subst trim.simps) simp
    moreover have "length (m # ms) - nat h = 0" using False by simp
    ultimately show ?thesis by simp
  qed
qed

lemma trim_Some_nonneg: "trim h ms = Some y \<Longrightarrow> 0 \<le> h"
proof (rule trim.raw_induct [where P = "\<lambda>h ms y. 0 \<le> h" and h = h and ms = ms and y = y])
  fix t :: "int \<Rightarrow> message list \<Rightarrow> message list option" and h' ms' y'
  assume ih: "\<And>h ms y. t h ms = Some y \<Longrightarrow> 0 \<le> h"
    and eq: "(if h' < int (length ms') then t h' (tl ms') else Some ms') = Some y'"
  show "0 \<le> h'"
  proof (cases "h' < int (length ms')")
    case True
    with eq ih show ?thesis by simp
  next
    case False
    then show ?thesis by simp
  qed
qed

lemma trim_negative: "h < 0 \<Longrightarrow> trim h ms = None"
  using trim_Some_nonneg [of h ms] by (cases "trim h ms") auto

lemma log_if_fields [simp]:
  "nextID (log_if b e s) = nextID s"
  "clients (log_if b e s) = clients s"
  "messages (log_if b e s) = messages s"
  "active (log_if b e s) = active s"
  "pingTimer (log_if b e s) = pingTimer s"
  "options (log_if b e s) = options s"
  "verboseDebugging (log_if b e s) = verboseDebugging s"
  "responses (log_if b e s) = responses s"
  "timeouts (log_if b e s) = timeouts s"
  "next_ref (log_if b e s) = next_ref s"
  "logged (log_if b e s) = (if b then logged s @ [e] else logged s)"
  by (simp_all add: log_if_def)

lemma call_res_fields [simp]:
  "nextID (call_res r x s) = nextID s"
  "clients (call_res r x s) = clients s"
  "messages (call_res r x s) = messages s"
  "active (call_res r x s) = active s"
  "pingTimer (call_res r x s) = pingTimer s"
  "options (call_res r x s) = options s"
  "verboseDebugging (call_res r x s) = verboseDebugging s"
  "timeouts (call_res r x s) = timeouts s"
  "next_ref (call_res r x s) = next_ref s"
  "logged (call_res r x s) = logged s"
  "responses (call_res r x s) = (responses s)(r := responses s r @ [x])"
  by (simp_all add: call_res_def)

lemma call_all_fields [simp]:
  "nextID (foldl (\<lambda>s' c. call_res (f c) x s') s cs) = nextID s"
  "clients (foldl (\<lambda>s' c. call_res (f c) x s') s cs) = clients s"
  "messages (foldl (\<lambda>s' c. call_res (f c) x s') s cs) = messages s"
  "active (foldl (\<lambda>s' c. call_res (f c) x s') s cs) = active s"
  "pingTimer (foldl (\<lambda>s' c. call_res (f c) x s') s cs) = pingTimer s"
  "options (foldl (\<lambda>s' c. call_res (f c) x s') s cs) = options s"
  "verboseDebugging (foldl (\<lambda>s' c. call_res (f c) x s') s cs) = verboseDebugging s"
  "timeouts (foldl (\<lambda>s' c. call_res (f c) x s') s cs) = timeouts s"
  "next_ref (foldl (\<lambda>s' c. call_res (f c) x s') s cs) = next_ref s"
  "logged (foldl (\<lambda>s' c. call_res (f c) x s') s cs) = logged s"
  by (induction cs arbitrary: s; simp)+

lemma call_all_responses:
  "responses (foldl (\<lambda>s' c. call_res (res c) x s') s cs) r
     = responses s r @ replicate (length (filter (\<lambda>c. res c = r) cs)) x"
  by (induction cs arbitrary: s) (auto simp: replicate_append_same)


lemma contig_nth:
  "contig n ms \<longleftrightarrow> (\<forall>i<length ms. msg_id (ms ! i) = n - int (length ms) + int i)"
  unfolding contig_def by (subst list_eq_iff_nth_eq) auto

lemma contig_snoc: "contig n ms \<Longrightarrow> msg_id m = n \<Longrightarrow> contig (n + 1) (ms @ [m])"
  by (auto simp: contig_nth nth_append)

lemma contig_drop: "contig n ms \<Longrightarrow> contig n (drop k ms)"
  by (auto simp: contig_nth)


lemma contig_bounds: "contig n ms \<Longrightarrow> m \<in> set ms \<Longrightarrow> msg_id m < n"
  by (auto simp: contig_nth in_set_conv_nth)

lemma deliver_fields [simp]:
  "nextID (deliver en out s) = nextID s"
  "clients (deliver en out s) = clients s"
  "messages (deliver en out s) = messages s"
  "active (deliver en out s) = active s"
  "pingTimer (deliver en out s) = pingTimer s"
  "options (deliver en out s) = options s"
  "verboseDebugging (deliver en out s) = verboseDebugging s"
  "timeouts (deliver en out s) = timeouts s"
  "next_ref (deliver en out s) = next_ref s"
  "logged (deliver en out s) = logged s"
  by (simp_all add: deliver_def)

lemma deliver_responses:
  "responses (deliver en out s) r
     = responses s r
       @ replicate (length (filter (\<lambda>c. res c = r) (filter (receives en) (clients s)))) (Write out)"
  by (simp add: deliver_def call_all_responses)

lemma publish_tail_nonneg:
  "0 \<le> historySize (options s) \<Longrightarrow>
   publish_tail i en out s
     = Some (i, (deliver en out s)
          \<lparr>messages := drop (length (messages s) - nat (historySize (options s))) (messages s)\<rparr>)"
  by (simp add: publish_tail_def trim_nonneg)

lemma receives_unnamed [simp]: "\<not> name_truthy en \<Longrightarrow> receives en c"
  by (simp add: receives_def)

lemma name_truthy_name_or [simp]: "name_truthy (Some (name_or en [])) = name_truthy en"
  by (auto simp: name_truthy_def name_or_def split: option.splits)

lemma name_or_idem [simp]: "name_or (Some (name_or en [])) [] = name_or en []"
  by (auto simp: name_or_def split: option.splits)

lemma receives_name_or [simp]: "receives (Some (name_or en [])) c = receives en c"
  by (simp add: receives_def)

lemma publish_ping_no_clients:
  assumes "\<not> truthy data" "\<not> name_truthy en" "clients s = []"
  shows "publish data en s = Some (None, s\<lparr>logged := publish_logged en s\<rparr>)"
  using assms by (simp add: publish_def Let_def log_if_def publish_logged_def)

lemma publish_ping_clients:
  assumes "\<not> truthy data" "\<not> name_truthy en" "clients s \<noteq> []" "0 \<le> historySize (options s)"
  shows "\<exists>t. publish data en s = Some (None, t)
           \<and> nextID t = nextID s
           \<and> messages t = drop (length (messages s) - nat (historySize (options s))) (messages s)
           \<and> clients t = clients s \<and> options t = options s \<and> active t = active s
           \<and> pingTimer t = pingTimer s \<and> verboseDebugging t = verboseDebugging s
           \<and> timeouts t = timeouts s \<and> next_ref t = next_ref s
           \<and> logged t = publish_logged en s
           \<and> (\<forall>r. responses t r
                = responses s r
                  @ replicate (length (filter (\<lambda>c. res c = r) (clients s))) (Write ping_block))"
  using assms
  by (simp add: publish_def Let_def publish_tail_nonneg deliver_responses publish_logged_def)

lemma publish_message:
  assumes "truthy data \<or> name_truthy en" "0 \<le> historySize (options s)"
  shows "\<exists>t. publish data en s = Some (Some (nextID s), t)
           \<and> nextID t = nextID s + 1
           \<and> messages t
               = drop (Suc (length (messages s)) - nat (historySize (options s)))
                   (messages s @ [\<lparr>msg_id = nextID s, msg_eventName = name_or en [],
                                   msg_output = render (nextID s) en data\<rparr>])
           \<and> clients t = clients s \<and> options t = options s \<and> active t = active s
           \<and> pingTimer t = pingTimer s \<and> verboseDebugging t = verboseDebugging s
           \<and> timeouts t = timeouts s \<and> next_ref t = next_ref s
           \<and> logged t = publish_logged en s
           \<and> (\<forall>r. responses t r
                = responses s r
                  @ replicate (length (filter (\<lambda>c. res c = r) (filter (receives en) (clients s))))
                      (Write (render (nextID s) en data)))"
  using assms
  by (auto simp add: publish_def Let_def publish_tail_nonneg deliver_responses publish_logged_def)


lemma publish_Some_cases:
  assumes "publish data en s = Some (r, t)"
  shows "(\<not> truthy data \<and> \<not> name_truthy en \<and> clients s = []) \<or> 0 \<le> historySize (options s)"
proof (rule ccontr)
  assume "\<not> ?thesis"
  then have neg: "historySize (options s) < 0"
    and not_early: "\<not> (\<not> truthy data \<and> \<not> name_truthy en \<and> clients s = [])" by auto
  have "publish_tail i en' out s' = None" if "options s' = options s" for i en' out s'
    using neg that by (simp add: publish_tail_def trim_negative)
  then have "publish data en s = None"
    using not_early by (auto simp add: publish_def Let_def)
  with assms show False by simp
qed

lemma subscribe_fields [simp]:
  "nextID (snd (subscribe rq rs evs s)) = nextID s"
  "messages (snd (subscribe rq rs evs s)) = messages s"
  "active (snd (subscribe rq rs evs s)) = active s"
  "options (snd (subscribe rq rs evs s)) = options s"
  "pingTimer (snd (subscribe rq rs evs s)) = pingTimer s"
  "verboseDebugging (snd (subscribe rq rs evs s)) = verboseDebugging s"
  "clients (snd (subscribe rq rs evs s)) = clients s @ [fst (subscribe rq rs evs s)]"
  "next_ref (snd (subscribe rq rs evs s)) = Suc (next_ref s)"
  by (simp_all add: subscribe_def Let_def)

lemma unsubscribe_fields [simp]:
  "nextID (unsubscribe c s) = nextID s"
  "messages (unsubscribe c s) = messages s"
  "active (unsubscribe c s) = active s"
  "options (unsubscribe c s) = options s"
  "pingTimer (unsubscribe c s) = pingTimer s"
  "verboseDebugging (unsubscribe c s) = verboseDebugging s"
  "timeouts (unsubscribe c s) = timeouts s"
  "next_ref (unsubscribe c s) = next_ref s"
  "clients (unsubscribe c s) = filter (\<lambda>d. cref d \<noteq> cref c) (clients s)"
  "responses (unsubscribe c s) = (responses s)(res c := responses s (res c) @ [End])"
  by (simp_all add: unsubscribe_def Let_def)

lemma close_fields [simp]:
  "nextID (close s) = nextID s"
  "messages (close s) = []"
  "clients (close s) = []"
  "active (close s) = False"
  "options (close s) = options s"
  "pingTimer (close s) = None"
  "verboseDebugging (close s) = verboseDebugging s"
  "logged (close s) = logged s"
  by (simp_all add: close_def)

lemma callback_fields [simp]:
  "nextID (on_timeout c s) = nextID s" "messages (on_timeout c s) = messages s"
  "active (on_timeout c s) = active s" "options (on_timeout c s) = options s"
  "nextID (on_close c s) = nextID s" "messages (on_close c s) = messages s"
  "active (on_close c s) = active s" "options (on_close c s) = options s"
  "nextID (on_error c s) = nextID s" "messages (on_error c s) = messages s"
  "active (on_error c s) = active s" "options (on_error c s) = options s"
  "nextID (on_finish c s) = nextID s" "messages (on_finish c s) = messages s"
  "active (on_finish c s) = active s" "options (on_finish c s) = options s"
  by (simp_all add: on_timeout_def on_close_def on_error_def on_finish_def)

text \<open>What one call does to the fields that the history depends on.\<close>

lemma exec_step:
  assumes "exec c s = Some (r, t)"
  shows "options t = options s \<and> (active t \<longrightarrow> active s)
         \<and> (r = None \<and> nextID t = nextID s
              \<and> (messages t = messages s \<or> messages t = []
                  \<or> (0 \<le> historySize (options s)
                      \<and> messages t = drop (length (messages s) - nat (historySize (options s)))
                                     (messages s)))
            \<or> r = Some (nextID s) \<and> nextID t = nextID s + 1 \<and> 0 \<le> historySize (options s)
              \<and> (\<exists>m. msg_id m = nextID s
                    \<and> messages t = drop (Suc (length (messages s)) - nat (historySize (options s)))
                                     (messages s @ [m])))"
proof (cases c)
  case (Publish data en)
  with assms have p: "publish data en s = Some (r, t)" by simp
  show ?thesis
  proof (cases "\<not> truthy data \<and> \<not> name_truthy en")
    case ping: True
    show ?thesis
    proof (cases "clients s = []")
      case True
      with ping p show ?thesis by (auto simp add: publish_ping_no_clients)
    next
      case False
      with ping p publish_Some_cases [OF p] have h: "0 \<le> historySize (options s)" by simp
      from publish_ping_clients [of data en s] ping False h p show ?thesis by auto
    qed
  next
    case False
    with publish_Some_cases [OF p] have h: "0 \<le> historySize (options s)" by auto
    from False have "truthy data \<or> name_truthy en" by auto
    from publish_message [OF this h] obtain t' where
      t': "publish data en s = Some (Some (nextID s), t')" "nextID t' = nextID s + 1"
        "messages t' = drop (Suc (length (messages s)) - nat (historySize (options s)))
            (messages s @ [\<lparr>msg_id = nextID s, msg_eventName = name_or en [],
                             msg_output = render (nextID s) en data\<rparr>])"
        "options t' = options s" "active t' = active s"
      by blast
    from t'(1) p have eq: "t' = t" "r = Some (nextID s)" by simp_all
    have "\<exists>m. msg_id m = nextID s
            \<and> messages t = drop (Suc (length (messages s)) - nat (historySize (options s)))
                             (messages s @ [m])"
      using t'(3) unfolding eq(1)
      by (intro exI [of _ "\<lparr>msg_id = nextID s, msg_eventName = name_or en [],
                             msg_output = render (nextID s) en data\<rparr>"]) simp
    with t'(2,4,5) eq h show ?thesis by blast
  qed
qed (use assms in auto)

lemma exec_total:
  assumes "0 \<le> historySize (options s)"
  shows "\<exists>r t. exec c s = Some (r, t)"
proof (cases c)
  case (Publish data en)
  show ?thesis
  proof (cases "\<not> truthy data \<and> \<not> name_truthy en")
    case ping: True
    show ?thesis
    proof (cases "clients s = []")
      case True
      with ping Publish show ?thesis by (simp add: publish_ping_no_clients)
    next
      case False
      with publish_ping_clients [of data en s] ping assms Publish show ?thesis by auto
    qed
  next
    case False
    then have "truthy data \<or> name_truthy en" by auto
    from publish_message [OF this assms] Publish show ?thesis by auto
  qed
qed simp_all

lemma exec_hist_ok:
  assumes "exec c s = Some (r, t)" "hist_ok s"
  shows "hist_ok t"
proof -
  from assms(2) have len: "int (length (messages s)) \<le> historySize (options s)"
    and cg: "contig (nextID s) (messages s)" by (simp_all add: hist_ok_def)
  from exec_step [OF assms(1)] show ?thesis
  proof (elim conjE disjE exE)
    assume "messages t = messages s" "nextID t = nextID s" "options t = options s"
    with len cg show ?thesis by (simp add: hist_ok_def)
  next
    assume "messages t = []" "options t = options s"
    with len show ?thesis by (simp add: hist_ok_def contig_def)
  next
    assume "messages t = drop (length (messages s) - nat (historySize (options s))) (messages s)"
      "nextID t = nextID s" "options t = options s"
    with len cg show ?thesis by (simp add: hist_ok_def contig_drop)
  next
    fix m
    assume m: "msg_id m = nextID s"
      and ms: "messages t = drop (Suc (length (messages s)) - nat (historySize (options s)))
                             (messages s @ [m])"
      and n: "nextID t = nextID s + 1" and o: "options t = options s"
      and h: "0 \<le> historySize (options s)"
    have "contig (nextID t) (messages t)"
      unfolding ms n by (rule contig_drop) (rule contig_snoc [OF cg m])
    moreover have "int (length (messages t)) \<le> historySize (options t)"
      using h len by (simp add: ms o)
    ultimately show ?thesis by (simp add: hist_ok_def)
  qed
qed

lemma run_step:
  assumes "run cs s = Some (ids, t)"
  shows "options t = options s \<and> (active t \<longrightarrow> active s) \<and> nextID s \<le> nextID t
         \<and> sorted_wrt (<) ids \<and> (\<forall>i\<in>set ids. nextID s \<le> i \<and> i < nextID t)"
  using assms
proof (induction cs arbitrary: s ids)
  case Nil
  then show ?case by simp
next
  case (Cons c cs)
  from Cons.prems obtain r s' ids' where e: "exec c s = Some (r, s')"
    and rn: "run cs s' = Some (ids', t)"
    and ids: "ids = (case r of None \<Rightarrow> [] | Some i \<Rightarrow> [i]) @ ids'"
    by (auto split: option.splits prod.splits)
  from Cons.IH [OF rn] have ih: "options t = options s'" "active t \<longrightarrow> active s'"
    "nextID s' \<le> nextID t" "sorted_wrt (<) ids'" "\<forall>i\<in>set ids'. nextID s' \<le> i \<and> i < nextID t"
    by auto
  from exec_step [OF e] have st: "options s' = options s" "active s' \<longrightarrow> active s"
    "r = None \<and> nextID s' = nextID s \<or> r = Some (nextID s) \<and> nextID s' = nextID s + 1"
    by auto
  from st(3) show ?case
  proof
    assume "r = None \<and> nextID s' = nextID s"
    with ih st ids show ?thesis by auto
  next
    assume "r = Some (nextID s) \<and> nextID s' = nextID s + 1"
    with ih st ids show ?thesis by (auto simp: )
  qed
qed

lemma run_hist_ok: "run cs s = Some (ids, t) \<Longrightarrow> hist_ok s \<Longrightarrow> hist_ok t"
proof (induction cs arbitrary: s ids)
  case Nil
  then show ?case by simp
next
  case (Cons c cs)
  from Cons.prems(1) obtain r s' ids' where e: "exec c s = Some (r, s')"
    and rn: "run cs s' = Some (ids', t)"
    by (auto split: option.splits prod.splits)
  from Cons.IH [OF rn exec_hist_ok [OF e Cons.prems(2)]] show ?case .
qed

lemma run_total: "0 \<le> historySize (options s) \<Longrightarrow> \<exists>ids t. run cs s = Some (ids, t)"
proof (induction cs arbitrary: s)
  case Nil
  then show ?case by simp
next
  case (Cons c cs)
  from exec_total [OF Cons.prems] obtain r s' where e: "exec c s = Some (r, s')" by blast
  from exec_step [OF e] Cons.prems have "0 \<le> historySize (options s')" by simp
  from Cons.IH [OF this] obtain ids t where "run cs s' = Some (ids, t)" by blast
  with e show ?case by simp
qed

lemma SSEChannel_fields [simp]:
  "nextID (SSEChannel p v) = dflt (startId_opt p) 1"
  "clients (SSEChannel p v) = []"
  "messages (SSEChannel p v) = []"
  "active (SSEChannel p v) = True"
  "historySize (options (SSEChannel p v)) = dflt (historySize_opt p) 1"
  "rewind (options (SSEChannel p v)) = dflt (rewind_opt p) 0"
  by (simp_all add: SSEChannel_def Let_def)

lemma hist_ok_init: "0 \<le> dflt (historySize_opt p) 1 \<Longrightarrow> hist_ok (SSEChannel p v)"
  by (simp add: hist_ok_def contig_def)

lemma hist_ok_reachable:
  assumes "0 \<le> dflt (historySize_opt p) 1" "run cs (SSEChannel p v) = Some (ids, s)"
  shows "hist_ok s" "historySize (options s) = dflt (historySize_opt p) 1"
  using run_hist_ok [OF assms(2) hist_ok_init [OF assms(1)]] run_step [OF assms(2)] by simp_all

section \<open>The history buffer\<close>

lemma run_abc_calls: "run abc_calls (SSEChannel opts2 False) = Some ([1, 2], st2)"
proof -
  have "0 \<le> historySize (options (SSEChannel opts2 False))"
    by (simp add: opts2_def no_options_def dflt_def)
  then have "\<exists>ids t. run abc_calls (SSEChannel opts2 False) = Some (ids, t)"
    by (rule run_total)
  moreover have "fst (the (run abc_calls (SSEChannel opts2 False))) = [1, 2]"
    by code_simp
  ultimately show ?thesis by (auto simp: st2_def)
qed



section \<open>Pings\<close>

text \<open>
  Claim C6. On every state that a channel built with \<open>historySize \<ge> 0\<close> reaches,
  \<open>publish()\<close> with both arguments absent returns no id and leaves the history, \<open>nextID\<close>
  and the set of clients as they were; every response object receives one write of the
  block \<open>data: \n\n\<close> for each client that holds it, and nothing else. With no client,
  nothing is written at all.
\<close>

theorem ping_publish_frame:
  assumes "0 \<le> dflt (historySize_opt p) 1" and "run cs (SSEChannel p v) = Some (ids, s)"
  shows "\<exists>t. publish Undefined None s = Some (None, t)
           \<and> messages t = messages s \<and> nextID t = nextID s \<and> clients t = clients s
           \<and> (\<forall>r. responses t r
                = responses s r
                  @ replicate (length (filter (\<lambda>c. res c = r) (clients s)))
                      (Write (''data: '' @ [CHR 0x0A, CHR 0x0A])))"
proof -
  from hist_ok_reachable [OF assms] have ok: "hist_ok s" by simp
  then have len: "int (length (messages s)) \<le> historySize (options s)"
    by (simp add: hist_ok_def)
  then have h: "0 \<le> historySize (options s)" by linarith
  have ping: "\<not> truthy Undefined" "\<not> name_truthy None" by (simp_all add: name_truthy_def)
  show ?thesis
  proof (cases "clients s = []")
    case True
    with ping show ?thesis by (simp add: publish_ping_no_clients)
  next
    case False
    from publish_ping_clients [OF ping False h] len show ?thesis
      by (auto simp: ping_block_def LF_def)
  qed
qed

lemma run_sub_calls: "run sub_calls (SSEChannel no_options False) = Some ([], st_sub)"
  by (simp add: sub_calls_def st_sub_def)

lemma clients_st_sub:
  "clients st_sub = [\<lparr>cref = 0, req = \<lparr>last_event_id = None\<rparr>, res = 7, events = None\<rparr>]"
  by (simp add: st_sub_def sub_calls_def subscribe_def Let_def SSEChannel_def)

theorem ping_publish_frame_witness:
  "0 \<le> dflt (historySize_opt no_options) 1
   \<and> run sub_calls (SSEChannel no_options False) = Some ([], st_sub)
   \<and> (\<exists>t. publish Undefined None st_sub = Some (None, t)
          \<and> messages t = messages st_sub \<and> nextID t = nextID st_sub
          \<and> clients t = clients st_sub
          \<and> responses t 7 = responses st_sub 7 @ [Write (''data: '' @ [CHR 0x0A, CHR 0x0A])])"
proof -
  have h: "0 \<le> dflt (historySize_opt no_options) 1"
    by (simp add: no_options_def dflt_def)
  from ping_publish_frame [OF h run_sub_calls] obtain t where
    t: "publish Undefined None st_sub = Some (None, t)" "messages t = messages st_sub"
      "nextID t = nextID st_sub" "clients t = clients st_sub"
      "\<forall>r. responses t r = responses st_sub r
              @ replicate (length (filter (\<lambda>c. res c = r) (clients st_sub)))
                  (Write (''data: '' @ [CHR 0x0A, CHR 0x0A]))"
    by blast
  from t(5) have "responses t 7 = responses st_sub 7 @ [Write (''data: '' @ [CHR 0x0A, CHR 0x0A])]"
    by (simp add: clients_st_sub)
  with t h run_sub_calls show ?thesis by blast
qed

section \<open>The constructor\<close>

lemma slice_length: "length (slice k xs) \<le> length xs"
  by (simp add: slice_def)

lemma replay_length: "length (replay c s) \<le> length (messages s)"
proof -
  have "length (slice k (filter (replay_match c) (messages s))) \<le> length (messages s)" for k
    by (rule order_trans [OF slice_length length_filter_le])
  then show ?thesis by (simp add: replay_def Let_def)
qed

text \<open>
  Claim C10. A channel built with no configuration has the options \<open>pingInterval = 30000\<close>,
  \<open>maxStreamDuration = 0\<close>, \<open>clientRetryInterval = 10000\<close>, \<open>startId = 1\<close>,
  \<open>historySize = 1\<close>, \<open>rewind = 0\<close>, and each field left out of any configuration \<open>q\<close>
  takes its default on its own; \<open>nextID\<close> starts at \<open>startId\<close>. When \<open>historySize\<close> is
  left out, every reachable state holds at most one message, a replay re-delivers at most
  one message, and after a non-ping publish the history is exactly the message just
  published.
\<close>

theorem constructor_defaults:
  assumes "historySize_opt p = None" and "run cs (SSEChannel p v) = Some (ids, s)"
  shows "options (SSEChannel no_options v)
           = \<lparr>pingInterval = 30000, maxStreamDuration = 0, clientRetryInterval = 10000,
              startId = 1, historySize = 1, rewind = 0\<rparr>
         \<and> options (SSEChannel q v)
           = \<lparr>pingInterval = (case pingInterval_opt q of None \<Rightarrow> 30000 | Some x \<Rightarrow> x),
              maxStreamDuration = (case maxStreamDuration_opt q of None \<Rightarrow> 0 | Some x \<Rightarrow> x),
              clientRetryInterval = (case clientRetryInterval_opt q of None \<Rightarrow> 10000 | Some x \<Rightarrow> x),
              startId = (case startId_opt q of None \<Rightarrow> 1 | Some x \<Rightarrow> x),
              historySize = (case historySize_opt q of None \<Rightarrow> 1 | Some x \<Rightarrow> x),
              rewind = (case rewind_opt q of None \<Rightarrow> 0 | Some x \<Rightarrow> x)\<rparr>
         \<and> nextID (SSEChannel q v) = (case startId_opt q of None \<Rightarrow> 1 | Some x \<Rightarrow> x)
         \<and> length (messages s) \<le> 1
         \<and> length (replay c s) \<le> 1
         \<and> (truthy data \<or> name_truthy en \<longrightarrow>
              (\<exists>t. publish data en s = Some (Some (nextID s), t)
                 \<and> messages t = [\<lparr>msg_id = nextID s, msg_eventName = name_or en [],
                                  msg_output = render (nextID s) en data\<rparr>]))"
proof -
  have h: "0 \<le> dflt (historySize_opt p) 1" using assms(1) by (simp add: dflt_def)
  from hist_ok_reachable [OF h assms(2)] assms(1)
  have ok: "hist_ok s" and hs: "historySize (options s) = 1" by (simp_all add: dflt_def)
  then have len: "length (messages s) \<le> 1" by (simp add: hist_ok_def)
  have rp: "length (replay c s) \<le> 1" using replay_length [of c s] len by linarith
  have pub: "\<exists>t. publish data en s = Some (Some (nextID s), t)
                 \<and> messages t = [\<lparr>msg_id = nextID s, msg_eventName = name_or en [],
                                  msg_output = render (nextID s) en data\<rparr>]"
    if ne: "truthy data \<or> name_truthy en"
  proof -
    have "0 \<le> historySize (options s)" using hs by simp
    from publish_message [OF ne this] obtain t where
      t: "publish data en s = Some (Some (nextID s), t)"
         "messages t = drop (Suc (length (messages s)) - nat (historySize (options s)))
            (messages s @ [\<lparr>msg_id = nextID s, msg_eventName = name_or en [],
                             msg_output = render (nextID s) en data\<rparr>])"
      by blast
    from t(2) len hs have "messages t = [\<lparr>msg_id = nextID s, msg_eventName = name_or en [],
                                  msg_output = render (nextID s) en data\<rparr>]"
      by (cases "messages s") auto
    with t(1) show ?thesis by blast
  qed
  have d1: "options (SSEChannel no_options v)
           = \<lparr>pingInterval = 30000, maxStreamDuration = 0, clientRetryInterval = 10000,
              startId = 1, historySize = 1, rewind = 0\<rparr>"
    by (simp add: SSEChannel_def Let_def no_options_def dflt_def)
  have d2: "options (SSEChannel q v)
           = \<lparr>pingInterval = (case pingInterval_opt q of None \<Rightarrow> 30000 | Some x \<Rightarrow> x),
              maxStreamDuration = (case maxStreamDuration_opt q of None \<Rightarrow> 0 | Some x \<Rightarrow> x),
              clientRetryInterval = (case clientRetryInterval_opt q of None \<Rightarrow> 10000 | Some x \<Rightarrow> x),
              startId = (case startId_opt q of None \<Rightarrow> 1 | Some x \<Rightarrow> x),
              historySize = (case historySize_opt q of None \<Rightarrow> 1 | Some x \<Rightarrow> x),
              rewind = (case rewind_opt q of None \<Rightarrow> 0 | Some x \<Rightarrow> x)\<rparr>"
    by (simp add: SSEChannel_def Let_def dflt_def)
  have d3: "nextID (SSEChannel q v) = (case startId_opt q of None \<Rightarrow> 1 | Some x \<Rightarrow> x)"
    by (simp add: dflt_def)
  from d1 d2 d3 len rp pub show ?thesis by blast
qed


lemma run_one_call: "run one_call (SSEChannel no_options False) = Some ([1], st1)"
proof -
  have "0 \<le> historySize (options (SSEChannel no_options False))"
    by (simp add: no_options_def dflt_def)
  then have "\<exists>ids t. run one_call (SSEChannel no_options False) = Some (ids, t)"
    by (rule run_total)
  moreover have "fst (the (run one_call (SSEChannel no_options False))) = [1]"
    by code_simp
  ultimately show ?thesis by (auto simp: st1_def)
qed

theorem constructor_defaults_witness:
  "historySize_opt no_options = None
   \<and> run one_call (SSEChannel no_options False) = Some ([1], st1)
   \<and> options (SSEChannel no_options False)
           = \<lparr>pingInterval = 30000, maxStreamDuration = 0, clientRetryInterval = 10000,
              startId = 1, historySize = 1, rewind = 0\<rparr>
   \<and> length (messages st1) \<le> 1
   \<and> length (replay conn_plain st1) \<le> 1
   \<and> truthy (String ''b'')
   \<and> (\<exists>t. publish (String ''b'') (Some ''ev'') st1 = Some (Some (nextID st1), t)
          \<and> messages t = [\<lparr>msg_id = nextID st1, msg_eventName = name_or (Some ''ev'') [],
                           msg_output = render (nextID st1) (Some ''ev'') (String ''b'')\<rparr>])"
proof -
  have h: "historySize_opt no_options = None" by (simp add: no_options_def)
  have tr: "truthy (String ''b'')" by simp
  from constructor_defaults [OF h run_one_call, where c = conn_plain and data = "String ''b''"
      and en = "Some ''ev''"]
    h tr run_one_call
  show ?thesis by blast
qed

section \<open>The header of a reconnecting client\<close>

lemma subscribe_writes:
  "responses (snd (subscribe rq rs evs s)) rs
     = responses s rs
       @ [WriteHead 200 sse_headers, FlushHeaders,
          Write (''retry: '' @ show_int (clientRetryInterval (options s)) @ [LF, LF]
                 @ concat (map msg_output
                     (replay \<lparr>cref = next_ref s, req = rq, res = rs, events = evs\<rparr> s))),
          On ''close'', On ''error'', On ''finish'']"
  "fst (subscribe rq rs evs s) = \<lparr>cref = next_ref s, req = rq, res = rs, events = evs\<rparr>"
  by (simp_all add: subscribe_def Let_def replay_def rewind_depth_def split: option.splits)

lemma set_tl_member: "x \<in> set (tl xs) \<Longrightarrow> x \<in> set xs"
  by (cases xs) auto

lemma takeWhile_none: "\<forall>c\<in>set u. \<not> P c \<Longrightarrow> takeWhile P u = []"
  by (cases u) auto

lemma parseInt_no_digit:
  assumes "\<forall>c\<in>set h. \<not> is_digit c"
  shows "parseInt h = None"
proof -
  have "takeWhile is_digit
          (if dropWhile is_ws h \<noteq> []
              \<and> (hd (dropWhile is_ws h) = CHR ''-'' \<or> hd (dropWhile is_ws h) = CHR ''+'')
           then tl (dropWhile is_ws h) else dropWhile is_ws h) = []"
    by (rule takeWhile_none)
       (use assms in \<open>auto dest!: set_tl_member set_dropWhileD\<close>)
  then show ?thesis by (simp only: parseInt_def Let_def simp_thms if_True)
qed

lemma takeWhile_empty_iff: "takeWhile P xs = [] \<longleftrightarrow> xs = [] \<or> \<not> P (hd xs)"
  by (cases xs) auto

lemma parseInt_ws: "is_ws c \<Longrightarrow> parseInt (c # cs) = parseInt cs"
  by (simp add: parseInt_def)

lemma parseInt_Cons:
  "\<not> is_ws c \<Longrightarrow>
   (parseInt (c # cs) = None)
     = (if c = CHR ''-'' \<or> c = CHR ''+'' then cs = [] \<or> \<not> is_digit (hd cs) else \<not> is_digit c)"
  by (auto simp add: parseInt_def Let_def takeWhile_empty_iff)

lemma parseInt_None_iff: "parseInt h = None \<longleftrightarrow> \<not> leading_int h"
proof (induction h)
  case Nil
  then show ?case by (simp add: parseInt_def)
next
  case (Cons c cs)
  show ?case
  proof (cases "is_ws c")
    case True
    with Cons show ?thesis by (simp add: parseInt_ws)
  next
    case False
    then show ?thesis by (simp add: parseInt_Cons)
  qed
qed

text \<open>
  Claim C9 as stated fails on a header that is not a number but starts with one: \<open>1abc\<close>
  is read as the prior id \<open>1\<close>. On the channel \<open>st2\<close>, whose configured \<open>rewind\<close> is \<open>0\<close>,
  the replay depth is then \<open>1\<close> and message \<open>2\<close> is replayed.
\<close>

theorem last_event_id_prefix_counterexample:
  "last_event_id (req conn_1abc) = Some ''1abc''
   \<and> lastID (req conn_1abc) = Some 1
   \<and> rewind (options st2) = 0
   \<and> rewind_depth (req conn_1abc) st2 = 1
   \<and> map msg_id (messages st2) = [1, 2]
   \<and> map msg_id (replay conn_1abc st2) = [2]"
  by code_simp

text \<open>
  Claim C9, as amended. When the request has no \<open>last-event-id\<close> header, or has one
  without a leading integer (after white space and at most one sign there is no decimal
  digit: the empty header, and by \<open>parseInt_no_digit\<close> every header without a digit),
  \<open>subscribe\<close> has no prior id and the replay depth is the configured \<open>rewind\<close>: nothing
  is replayed when that is \<open>0\<close>, and otherwise the matching history goes through
  \<open>slice(0 - rewind)\<close>.
\<close>

theorem missing_or_malformed_last_event_id:
  assumes "last_event_id (req c) = None
           \<or> (\<exists>h. last_event_id (req c) = Some h \<and> \<not> leading_int h)"
  shows "lastID (req c) = None
         \<and> rewind_depth (req c) s = rewind (options s)
         \<and> replay c s
             = (if rewind (options s) = 0 then []
                else slice (- rewind (options s)) (filter (replay_match c) (messages s)))"
proof -
  from assms have l: "lastID (req c) = None"
    by (auto simp: lastID_def parseInt_None_iff)
  then have r: "rewind_depth (req c) s = rewind (options s)" by (simp add: rewind_depth_def)
  with l show ?thesis by (simp add: replay_def Let_def)
qed

theorem missing_or_malformed_last_event_id_witness:
  "(last_event_id (req conn_abc) = None
      \<or> (\<exists>h. last_event_id (req conn_abc) = Some h \<and> \<not> leading_int h))
   \<and> lastID (req conn_abc) = None
   \<and> rewind_depth (req conn_abc) st2 = rewind (options st2)
   \<and> replay conn_abc st2 = []"
proof -
  have p: "\<not> leading_int ''abc''" by (simp add: is_ws_def is_digit_def)
  then have h: "last_event_id (req conn_abc) = None
      \<or> (\<exists>h. last_event_id (req conn_abc) = Some h \<and> \<not> leading_int h)"
    by (simp add: conn_abc_def)
  have "options st2 = options (SSEChannel opts2 False)"
    using run_step [OF run_abc_calls] by simp
  then have "rewind (options st2) = 0" by (simp add: opts2_def no_options_def dflt_def)
  with missing_or_malformed_last_event_id [OF h, of st2] h show ?thesis by simp
qed

lemma leading_int_numeric:
  assumes "last_event_id (req c) = Some h" and "leading_int h"
  shows "\<exists>k. lastID (req c) = Some k \<and> rewind_depth (req c) s = nextID s - 1 - k"
proof -
  from assms(2) have "h \<noteq> []" by auto
  moreover from assms(2) obtain k where "parseInt h = Some k"
    using parseInt_None_iff [of h] by (cases "parseInt h") auto
  ultimately show ?thesis using assms(1) by (simp add: lastID_def rewind_depth_def)
qed

section \<open>Event filters\<close>






lemma run_foo_calls: "run foo_calls (SSEChannel no_options False) = Some ([], st_foo)"
  by (simp add: foo_calls_def st_foo_def)



section \<open>Message ids\<close>




section \<open>Publishing on a closed channel\<close>

lemma publish_Some_logged:
  assumes "publish data en s = Some (r, t)"
  shows "logged t = publish_logged en s"
proof (cases "\<not> truthy data \<and> \<not> name_truthy en")
  case ping: True
  show ?thesis
  proof (cases "clients s = []")
    case True
    with ping assms show ?thesis by (auto simp add: publish_ping_no_clients)
  next
    case False
    with ping publish_Some_cases [OF assms] have h: "0 \<le> historySize (options s)" by simp
    from publish_ping_clients [of data en s] ping False h assms show ?thesis by auto
  qed
next
  case False
  with publish_Some_cases [OF assms] have h: "0 \<le> historySize (options s)" by auto
  from False have "truthy data \<or> name_truthy en" by auto
  from publish_message [OF this h] assms show ?thesis by auto
qed

text \<open>
  Claim C3 as stated fails: on a channel that was closed, \<open>publish("a", "ev")\<close> returns
  the id \<open>1\<close>, moves \<open>nextID\<close> from \<open>1\<close> to \<open>2\<close> and puts the message into the emptied history.
\<close>

theorem publish_after_close_counterexample:
  "active closed0 = False
   \<and> nextID closed0 = 1 \<and> messages closed0 = []
   \<and> fst (the (publish (String ''a'') (Some ''ev'') closed0)) = Some 1
   \<and> nextID (snd (the (publish (String ''a'') (Some ''ev'') closed0))) = 2
   \<and> map msg_id (messages (snd (the (publish (String ''a'') (Some ''ev'') closed0)))) = [1]"
proof -
  have h: "0 \<le> historySize (options closed0)"
    by (simp add: closed0_def no_options_def dflt_def)
  have n: "nextID closed0 = 1" "messages closed0 = []" "active closed0 = False"
    "historySize (options closed0) = 1"
    by (simp_all add: closed0_def no_options_def dflt_def)
  have tr: "truthy (String ''a'') \<or> name_truthy (Some ''ev'')" by simp
  from publish_message [OF tr h] n show ?thesis by auto
qed

text \<open>
  Claim C3, as amended. In every state that follows a \<open>close\<close>, the channel is inactive
  and a \<open>publish\<close> that returns has logged the warning \<open>ssePubsub.publish: Channel closed\<close>
  as its last log entry. Nothing else depends on the channel being closed: a ping with no
  client returns no id and leaves ids, history and responses unchanged, while a publish
  with truthy \<open>data\<close> or \<open>eventName\<close> still returns the id \<open>nextID\<close>, increases \<open>nextID\<close> and
  appends its message to the history.
\<close>

theorem publish_on_closed_channel:
  assumes "run cs (close s0) = Some (ids, s)"
  shows "\<not> active s
         \<and> (\<forall>r t. publish data en s = Some (r, t) \<longrightarrow>
               logged t
                 = logged s
                   @ (if verboseDebugging s
                      then [InfoPublish (name_or en ''[ping]'') (length (clients s))] else [])
                   @ [Warn ''ssePubsub.publish: Channel closed''])
         \<and> (\<not> truthy data \<and> \<not> name_truthy en \<and> clients s = [] \<longrightarrow>
               (\<exists>t. publish data en s = Some (None, t) \<and> nextID t = nextID s
                  \<and> messages t = messages s \<and> clients t = [] \<and> responses t = responses s))
         \<and> ((truthy data \<or> name_truthy en) \<and> 0 \<le> historySize (options s) \<longrightarrow>
               (\<exists>t. publish data en s = Some (Some (nextID s), t) \<and> nextID t = nextID s + 1
                  \<and> messages t
                      = drop (Suc (length (messages s)) - nat (historySize (options s)))
                          (messages s @ [\<lparr>msg_id = nextID s, msg_eventName = name_or en [],
                                          msg_output = render (nextID s) en data\<rparr>])
                  \<and> clients t = clients s))"
proof -
  from run_step [OF assms] have na: "\<not> active s" by simp
  have lg: "logged t
                 = logged s
                   @ (if verboseDebugging s
                      then [InfoPublish (name_or en ''[ping]'') (length (clients s))] else [])
                   @ [Warn ''ssePubsub.publish: Channel closed'']"
    if "publish data en s = Some (r, t)" for r t
    using publish_Some_logged [OF that] na by (simp add: publish_logged_def)
  have pg: "\<exists>t. publish data en s = Some (None, t) \<and> nextID t = nextID s
                  \<and> messages t = messages s \<and> clients t = [] \<and> responses t = responses s"
    if "\<not> truthy data \<and> \<not> name_truthy en \<and> clients s = []"
    using that by (simp add: publish_ping_no_clients)
  have ms: "\<exists>t. publish data en s = Some (Some (nextID s), t) \<and> nextID t = nextID s + 1
                  \<and> messages t
                      = drop (Suc (length (messages s)) - nat (historySize (options s)))
                          (messages s @ [\<lparr>msg_id = nextID s, msg_eventName = name_or en [],
                                          msg_output = render (nextID s) en data\<rparr>])
                  \<and> clients t = clients s"
    if "(truthy data \<or> name_truthy en) \<and> 0 \<le> historySize (options s)"
  proof -
    from that have a: "truthy data \<or> name_truthy en" and b: "0 \<le> historySize (options s)"
      by simp_all
    from publish_message [OF a b] show ?thesis by blast
  qed
  from na lg pg ms show ?thesis by blast
qed

theorem publish_on_closed_channel_witness:
  "run [] (close (SSEChannel no_options False)) = Some ([], closed0)
   \<and> \<not> active closed0
   \<and> truthy (String ''a'') \<and> 0 \<le> historySize (options closed0)
   \<and> (\<exists>t. publish (String ''a'') (Some ''ev'') closed0 = Some (Some (nextID closed0), t)
          \<and> nextID t = nextID closed0 + 1
          \<and> logged t = logged closed0 @ [Warn ''ssePubsub.publish: Channel closed''])
   \<and> \<not> truthy Undefined \<and> \<not> name_truthy None \<and> clients closed0 = []
   \<and> (\<exists>t. publish Undefined None closed0 = Some (None, t) \<and> nextID t = nextID closed0
          \<and> messages t = messages closed0
          \<and> logged t = logged closed0 @ [Warn ''ssePubsub.publish: Channel closed''])"
proof -
  have r: "run [] (close (SSEChannel no_options False)) = Some ([], closed0)"
    by (simp add: closed0_def)
  have h: "0 \<le> historySize (options closed0)" "\<not> verboseDebugging closed0" "clients closed0 = []"
    by (simp_all add: closed0_def no_options_def dflt_def SSEChannel_def Let_def)
  have tr: "truthy (String ''a'')" "\<not> truthy Undefined" "\<not> name_truthy None"
    by (simp_all add: name_truthy_def)
  from publish_on_closed_channel [OF r, of "String ''a''" "Some ''ev''"] tr h
  have a: "\<exists>t. publish (String ''a'') (Some ''ev'') closed0 = Some (Some (nextID closed0), t)
          \<and> nextID t = nextID closed0 + 1
          \<and> logged t = logged closed0 @ [Warn ''ssePubsub.publish: Channel closed'']"
    by (auto simp: )
  from publish_on_closed_channel [OF r, of Undefined None] tr h
  have b: "\<exists>t. publish Undefined None closed0 = Some (None, t) \<and> nextID t = nextID closed0
          \<and> messages t = messages closed0
          \<and> logged t = logged closed0 @ [Warn ''ssePubsub.publish: Channel closed'']"
    by (auto simp: )
  from publish_on_closed_channel [OF r, of "String ''a''" "Some ''ev''"] r tr h a b
  show ?thesis by blast
qed

section \<open>Unsubscribing twice\<close>

lemma run_two_sub_calls: "run two_sub_calls (SSEChannel no_options False) = Some ([], st_two)"
  by (simp add: two_sub_calls_def st_two_def)

lemma st_two_fields:
  "clients st_two = [conn_plain, conn_second]"
  "responses st_two 7
     = [WriteHead 200 sse_headers, FlushHeaders,
        Write (''retry: '' @ show_int 10000 @ [LF, LF]),
        On ''close'', On ''error'', On ''finish'']"
  by (simp_all add: st_two_def two_sub_calls_def subscribe_def Let_def SSEChannel_def
        no_options_def dflt_def conn_plain_def conn_second_def replay_def rewind_depth_def
        lastID_def call_res_def log_if_def)

text \<open>
  Claim C8 as stated fails in its middle part: each \<open>unsubscribe\<close> calls \<open>end\<close> on the
  response of the connection, so after two calls the response has seen \<open>end\<close> twice.
\<close>

theorem unsubscribe_twice_counterexample:
  "clients st_two = [conn_plain, conn_second]
   \<and> count_list (responses st_two 7) End = 0
   \<and> count_list (responses (unsubscribe conn_plain st_two) 7) End = 1
   \<and> count_list (responses (unsubscribe conn_plain (unsubscribe conn_plain st_two)) 7) End = 2"
  by (simp add: st_two_fields conn_plain_def)

lemma more_fields [simp]:
  "next_ref (close s) = next_ref s"
  "next_ref (on_timeout c s) = next_ref s"
  "next_ref (on_close c s) = next_ref s"
  "next_ref (on_error c s) = next_ref s"
  "next_ref (on_finish c s) = next_ref s"
  "clients (on_close c s) = filter (\<lambda>d. cref d \<noteq> cref c) (clients s)"
  "clients (on_error c s) = clients s"
  "clients (on_finish c s) = clients s"
  "clients (on_timeout c s)
     = (if finished (res c) s then clients s else filter (\<lambda>d. cref d \<noteq> cref c) (clients s))"
  by (simp_all add: close_def on_timeout_def on_close_def on_error_def on_finish_def)

lemma publish_Some_clients:
  assumes "publish data en s = Some (r, t)"
  shows "clients t = clients s \<and> next_ref t = next_ref s"
proof (cases "\<not> truthy data \<and> \<not> name_truthy en")
  case ping: True
  show ?thesis
  proof (cases "clients s = []")
    case True
    with ping assms show ?thesis by (auto simp add: publish_ping_no_clients)
  next
    case False
    with ping publish_Some_cases [OF assms] have h: "0 \<le> historySize (options s)" by simp
    from publish_ping_clients [of data en s] ping False h assms show ?thesis by auto
  qed
next
  case False
  with publish_Some_cases [OF assms] have h: "0 \<le> historySize (options s)" by auto
  from False have "truthy data \<or> name_truthy en" by auto
  from publish_message [OF this h] assms show ?thesis by auto
qed

text \<open>A connection that is not among the clients stays out: new connections get fresh references.\<close>

lemma exec_absent:
  assumes "exec a s = Some (r, t)" and "k < next_ref s" and "\<forall>d\<in>set (clients s). cref d \<noteq> k"
  shows "k < next_ref t \<and> (\<forall>d\<in>set (clients t). cref d \<noteq> k)"
proof (cases a)
  case (Publish data en)
  with assms(1) have "publish data en s = Some (r, t)" by simp
  from publish_Some_clients [OF this] assms(2,3) show ?thesis by simp
next
  case (Subscribe rq rs evs)
  with assms show ?thesis by (auto simp: subscribe_writes)
next
  case (TimeoutFires c)
  with assms show ?thesis by (auto split: if_splits)
qed (use assms in auto)

lemma run_absent:
  assumes "run cs s = Some (ids, t)" and "k < next_ref s" and "\<forall>d\<in>set (clients s). cref d \<noteq> k"
  shows "k < next_ref t \<and> (\<forall>d\<in>set (clients t). cref d \<noteq> k)"
  using assms
proof (induction cs arbitrary: s ids)
  case Nil
  then show ?case by simp
next
  case (Cons a cs)
  from Cons.prems(1) obtain r s' ids' where e: "exec a s = Some (r, s')"
    and rn: "run cs s' = Some (ids', t)"
    by (auto split: option.splits prod.splits)
  from exec_absent [OF e Cons.prems(2,3)] have "k < next_ref s'"
    "\<forall>d\<in>set (clients s'). cref d \<noteq> k" by simp_all
  from Cons.IH [OF rn this] show ?case .
qed

text \<open>
  Claim C8, as amended. Let \<open>c\<close> be a connection made by \<open>subscribe\<close>. The first
  \<open>unsubscribe\<close> takes \<open>c\<close>, and only \<open>c\<close>, out of the set of clients. Whatever calls
  follow, \<open>c\<close> does not come back, and another \<open>unsubscribe\<close> of \<open>c\<close> leaves the set of
  clients, the ids and the history as they are and makes no call on any other response
  object. On the connection's own response it calls \<open>end\<close> once more.
\<close>

theorem unsubscribe_again:
  assumes "cref c < next_ref s" and "run cs (unsubscribe c s) = Some (ids, t)"
  shows "clients (unsubscribe c s) = filter (\<lambda>d. cref d \<noteq> cref c) (clients s)
         \<and> (\<forall>d\<in>set (clients t). cref d \<noteq> cref c)
         \<and> clients (unsubscribe c t) = clients t
         \<and> nextID (unsubscribe c t) = nextID t
         \<and> messages (unsubscribe c t) = messages t
         \<and> (\<forall>r. r \<noteq> res c \<longrightarrow> responses (unsubscribe c t) r = responses t r)
         \<and> responses (unsubscribe c t) (res c) = responses t (res c) @ [End]"
proof -
  have "cref c < next_ref (unsubscribe c s)" using assms(1) by simp
  moreover have "\<forall>d\<in>set (clients (unsubscribe c s)). cref d \<noteq> cref c" by simp
  ultimately have out: "\<forall>d\<in>set (clients t). cref d \<noteq> cref c"
    using run_absent [OF assms(2)] by blast
  then have "filter (\<lambda>d. cref d \<noteq> cref c) (clients t) = clients t"
    by (simp add: filter_id_conv)
  then have "clients (unsubscribe c t) = clients t" by simp
  with out show ?thesis by simp
qed

lemma st_two_more:
  "nextID st_two = 1" "next_ref st_two = 2" "historySize (options st_two) = 1"
  by (simp_all add: st_two_def two_sub_calls_def SSEChannel_def Let_def no_options_def dflt_def)

lemma st_after_unsub_publish:
  "\<exists>u. publish (String ''a'') (Some ''ev'') (unsubscribe conn_plain st_two) = Some (Some 1, u)
       \<and> clients u = [conn_second] \<and> st_after_unsub = on_close conn_plain u"
proof -
  have tr: "truthy (String ''a'') \<or> name_truthy (Some ''ev'')" by simp
  have h: "0 \<le> historySize (options (unsubscribe conn_plain st_two))"
    by (simp add: st_two_more)
  from publish_message [OF tr h] obtain u where
    e: "publish (String ''a'') (Some ''ev'') (unsubscribe conn_plain st_two)
          = Some (Some (nextID (unsubscribe conn_plain st_two)), u)"
    and c: "clients u = clients (unsubscribe conn_plain st_two)"
    by blast
  from c have "clients u = [conn_second]"
    by (simp add: st_two_fields) (simp add: conn_plain_def conn_second_def)
  moreover from e have "st_after_unsub = on_close conn_plain u"
    by (simp add: st_after_unsub_def after_unsub_calls_def)
  moreover from e have
    "publish (String ''a'') (Some ''ev'') (unsubscribe conn_plain st_two) = Some (Some 1, u)"
    by (simp add: st_two_more)
  ultimately show ?thesis by blast
qed

lemma st_after_unsub_run:
  "run after_unsub_calls (unsubscribe conn_plain st_two) = Some ([1], st_after_unsub)"
proof -
  from st_after_unsub_publish obtain u where
    "publish (String ''a'') (Some ''ev'') (unsubscribe conn_plain st_two) = Some (Some 1, u)"
    "st_after_unsub = on_close conn_plain u" by blast
  then show ?thesis by (simp add: after_unsub_calls_def)
qed

lemma st_after_unsub_clients: "clients st_after_unsub = [conn_second]"
proof -
  from st_after_unsub_publish obtain u where
    u: "clients u = [conn_second]" and eq: "st_after_unsub = on_close conn_plain u" by blast
  have "clients (on_close conn_plain u) = filter (\<lambda>d. cref d \<noteq> cref conn_plain) (clients u)"
    by simp
  also have "\<dots> = [conn_second]"
    unfolding u by (simp add: conn_plain_def conn_second_def)
  finally show ?thesis unfolding eq .
qed


theorem unsubscribe_again_witness:
  "cref conn_plain < next_ref st_two
   \<and> run after_unsub_calls (unsubscribe conn_plain st_two) = Some ([1], st_after_unsub)
   \<and> clients st_two = [conn_plain, conn_second]
   \<and> clients (unsubscribe conn_plain st_two) = [conn_second]
   \<and> clients st_after_unsub = [conn_second]
   \<and> clients (unsubscribe conn_plain st_after_unsub) = [conn_second]
   \<and> res conn_second \<noteq> res conn_plain
   \<and> responses (unsubscribe conn_plain st_after_unsub) (res conn_second)
       = responses st_after_unsub (res conn_second)
   \<and> responses (unsubscribe conn_plain st_after_unsub) (res conn_plain)
       = responses st_after_unsub (res conn_plain) @ [End]"
proof -
  have n: "cref conn_plain < next_ref st_two"
    by (simp add: st_two_more conn_plain_def)
  have ne: "res conn_second \<noteq> res conn_plain" by (simp add: conn_plain_def conn_second_def)
  have f: "filter (\<lambda>d. cref d \<noteq> cref conn_plain) (clients st_two) = [conn_second]"
    by (simp add: st_two_fields) (simp add: conn_plain_def conn_second_def)
  have a: "clients (unsubscribe conn_plain st_two) = [conn_second]"
    using f by simp
  from unsubscribe_again [OF n st_after_unsub_run] have
    b: "clients (unsubscribe conn_plain st_after_unsub) = clients st_after_unsub"
    and c: "\<forall>r. r \<noteq> res conn_plain \<longrightarrow>
             responses (unsubscribe conn_plain st_after_unsub) r = responses st_after_unsub r"
    and d: "responses (unsubscribe conn_plain st_after_unsub) (res conn_plain)
             = responses st_after_unsub (res conn_plain) @ [End]"
    by blast+
  from c ne have e: "responses (unsubscribe conn_plain st_after_unsub) (res conn_second)
             = responses st_after_unsub (res conn_second)" by blast
  from n st_after_unsub_run st_two_fields(1) a st_after_unsub_clients
    b [unfolded st_after_unsub_clients] ne e d
  show ?thesis by (intro conjI)
qed

lemma timeout_after_unsubscribe: "on_timeout c (unsubscribe c s) = unsubscribe c s"
  by (simp add: on_timeout_def finished_def)

lemma close_event_after_unsubscribe:
  "responses (on_close c (unsubscribe c s)) (res c) = responses s (res c) @ [End, End]"
  by (simp add: on_close_def)

section \<open>The rendered block\<close>

lemma split_brk_nonempty: "split_brk s \<noteq> []"
  by (induction s) (auto split: list.splits)

lemma split_brk_no_brk: "l \<in> set (split_brk s) \<Longrightarrow> c \<in> set l \<Longrightarrow> \<not> is_brk c"
proof (induction s arbitrary: l)
  case Nil
  then show ?case by simp
next
  case (Cons a s)
  show ?case
  proof (cases "is_brk a")
    case True
    with Cons show ?thesis by (auto split: if_splits)
  next
    case False
    obtain l' ls where sp: "split_brk s = l' # ls"
      using split_brk_nonempty [of s] by (cases "split_brk s") auto
    with False Cons.prems(1) have "l = a # l' \<or> l \<in> set ls" by simp
    then show ?thesis
    proof
      assume "l = a # l'"
      with Cons.prems(2) have "c = a \<or> c \<in> set l'" by simp
      then show ?thesis using False Cons.IH [of l'] sp by auto
    next
      assume "l \<in> set ls"
      then show ?thesis using Cons.IH [of l] Cons.prems(2) sp by simp
    qed
  qed
qed

lemma join_lf_concat:
  "ls \<noteq> [] \<Longrightarrow> join_lf (map (\<lambda>str. p @ str) ls) @ [LF, LF] = concat (map (\<lambda>l. p @ l @ [LF]) ls) @ [LF]"
  by (induction ls rule: join_lf.induct) auto

lemma join_lf_nonempty: "ls \<noteq> [] \<Longrightarrow> p \<noteq> [] \<Longrightarrow> join_lf (map (\<lambda>str. p @ str) ls) \<noteq> []"
  by (cases ls rule: join_lf.cases) auto

lemma render_pieces:
  "render i en data
     = ''id: '' @ show_int i @ '' '' @ [LF]
       @ (if name_truthy en then ''event: '' @ name_or en [] @ [LF] else [])
       @ concat (map (\<lambda>l. ''data: '' @ l @ [LF]) (payload_pieces data))
       @ [LF]
   \<and> payload_pieces data \<noteq> []
   \<and> (\<forall>l\<in>set (payload_pieces data). \<forall>c\<in>set l. c \<noteq> CR \<and> c \<noteq> LF)"
proof -
  define d where "d = (if typeof_object data then JSON_stringify data else data)"
  have body: "(if data_lines data \<noteq> [] then data_lines data else ''data: '') @ [LF, LF]
                = concat (map (\<lambda>l. ''data: '' @ l @ [LF]) (payload_pieces data)) @ [LF]"
  proof (cases "truthy d")
    case True
    then have dl: "data_lines data = join_lf (map (\<lambda>str. ''data: '' @ str) (split_brk (to_string d)))"
      and pp: "payload_pieces data = split_brk (to_string d)"
      unfolding data_lines_def payload_pieces_def d_def Let_def by (simp_all only: if_True)
    have "data_lines data \<noteq> []"
      unfolding dl by (rule join_lf_nonempty [OF split_brk_nonempty]) simp
    then show ?thesis
      unfolding pp using join_lf_concat [OF split_brk_nonempty, of "''data: ''" "to_string d"]
      by (simp add: dl)
  next
    case False
    then show ?thesis by (simp add: data_lines_def payload_pieces_def d_def Let_def)
  qed
  have ne: "payload_pieces data \<noteq> []"
    by (simp add: payload_pieces_def Let_def split_brk_nonempty)
  have nb: "\<forall>l\<in>set (payload_pieces data). \<forall>c\<in>set l. c \<noteq> CR \<and> c \<noteq> LF"
    using split_brk_no_brk by (auto simp: payload_pieces_def Let_def is_brk_def)
  have "render i en data
     = ''id: '' @ show_int i @ '' '' @ [LF]
       @ (if name_truthy en then ''event: '' @ name_or en [] @ [LF] else [])
       @ ((if data_lines data \<noteq> [] then data_lines data else ''data: '') @ [LF, LF])"
    by (simp add: render_def)
  with body ne nb show ?thesis by simp
qed

text \<open>
  Where no two line-break characters are adjacent in the payload, the pieces are the lines
  of the specification.
\<close>

lemma split_brk_spec_lines:
  "(\<forall>i. Suc i < length p \<longrightarrow> \<not> (is_brk (p ! i) \<and> is_brk (p ! Suc i))) \<Longrightarrow>
   split_brk p = spec_lines p"
proof (induction p)
  case Nil
  then show ?case by simp
next
  case (Cons c cs)
  have tl: "\<forall>i. Suc i < length cs \<longrightarrow> \<not> (is_brk (cs ! i) \<and> is_brk (cs ! Suc i))"
  proof (intro allI impI)
    fix i assume "Suc i < length cs"
    with Cons.prems [rule_format, of "Suc i"] show "\<not> (is_brk (cs ! i) \<and> is_brk (cs ! Suc i))"
      by simp
  qed
  from Cons.IH [OF tl] have ih: "split_brk cs = spec_lines cs" .
  show ?case
  proof (cases "is_brk c")
    case True
    have "\<not> (cs \<noteq> [] \<and> is_brk (hd cs))"
    proof
      assume a: "cs \<noteq> [] \<and> is_brk (hd cs)"
      then have "Suc 0 < length (c # cs)" by (cases cs) auto
      with Cons.prems [rule_format, of 0] True a show False by (cases cs) auto
    qed
    then have "split_brk (c # cs) = [] # split_brk cs"
      and "\<not> (c = CR \<and> cs \<noteq> [] \<and> hd cs = LF)"
      using True by (auto simp: is_brk_def)
    with True ih show ?thesis by simp
  next
    case False
    then have "c \<noteq> CR" by (simp add: is_brk_def)
    with False ih show ?thesis by simp
  qed
qed

lemma payload_pieces_values:
  "payload_pieces Undefined = [[]]"
  "payload_pieces (Number 0) = [[]]"
  "payload_pieces (Boolean False) = [[]]"
  "payload_pieces (String []) = [[]]"
  "payload_pieces Null = [''null'']"
  "payload_pieces (Boolean True) = [''true'']"
  "payload_pieces (String (c # cs)) = split_brk (c # cs)"
  "payload_pieces (Object j) = (if j = [] then [[]] else split_brk j)"
  by (simp_all add: payload_pieces_def is_brk_def LF_def CR_def)

text \<open>
  Claim C7, as amended. A publish with truthy \<open>data\<close> or \<open>eventName\<close> renders, stores and
  writes the block made of the line \<open>id: <id> \n\<close>, the line \<open>event: <eventName>\n\<close>
  exactly when the event name is not empty, one line \<open>data: <piece>\n\<close> for each piece of
  the payload, and a closing \<open>\n\<close>. The pieces are what lies between maximal runs of CR
  and LF characters, so no piece contains a line break and there is always at least one
  piece; falsy \<open>data\<close> gives the single empty piece.
\<close>

theorem render_format:
  assumes "truthy data \<or> name_truthy en" and "0 \<le> historySize (options s)"
  shows "\<exists>t block.
           publish data en s = Some (Some (nextID s), t)
           \<and> block = ''id: '' @ show_int (nextID s) @ '' '' @ [LF]
                     @ (if name_truthy en then ''event: '' @ name_or en [] @ [LF] else [])
                     @ concat (map (\<lambda>l. ''data: '' @ l @ [LF]) (payload_pieces data))
                     @ [LF]
           \<and> render (nextID s) en data = block
           \<and> (\<forall>r. responses t r
                = responses s r
                  @ replicate (length (filter (\<lambda>c. res c = r) (filter (receives en) (clients s))))
                      (Write block))
           \<and> (0 < historySize (options s) \<longrightarrow>
                messages t \<noteq> [] \<and> msg_output (last (messages t)) = block)
           \<and> payload_pieces data \<noteq> []
           \<and> (\<forall>l\<in>set (payload_pieces data). \<forall>c\<in>set l. c \<noteq> CR \<and> c \<noteq> LF)"
proof -
  from publish_message [OF assms] obtain t where
    p: "publish data en s = Some (Some (nextID s), t)"
    and m: "messages t
               = drop (Suc (length (messages s)) - nat (historySize (options s)))
                   (messages s @ [\<lparr>msg_id = nextID s, msg_eventName = name_or en [],
                                   msg_output = render (nextID s) en data\<rparr>])"
    and w: "\<forall>r. responses t r
                = responses s r
                  @ replicate (length (filter (\<lambda>c. res c = r) (filter (receives en) (clients s))))
                      (Write (render (nextID s) en data))"
    by blast
  have l: "messages t \<noteq> [] \<and> msg_output (last (messages t)) = render (nextID s) en data"
    if "0 < historySize (options s)"
  proof -
    from that have "Suc (length (messages s)) - nat (historySize (options s)) \<le> length (messages s)"
      by linarith
    then have "messages t
                 = drop (Suc (length (messages s)) - nat (historySize (options s))) (messages s)
                   @ [\<lparr>msg_id = nextID s, msg_eventName = name_or en [],
                       msg_output = render (nextID s) en data\<rparr>]"
      unfolding m by simp
    then show ?thesis by simp
  qed
  from p w l render_pieces [of "nextID s" en data] show ?thesis by blast
qed

lemma show_int_1: "show_int 1 = ''1''"
  by (simp add: show_int_def show_nat.simps digit_char_def)

lemma blank_line_pieces: "payload_pieces (String blank_line_payload) = [''a'', ''b'']"
  by (simp add: payload_pieces_def blank_line_payload_def is_brk_def LF_def CR_def)

text \<open>
  Claim C7 as stated fails on a payload with an empty line: \<open>a\n\nb\<close> has the three lines
  \<open>a\<close>, the empty line and \<open>b\<close>, but the run of two line breaks is one separator for
  \<open>publish\<close>, which renders two data lines.
\<close>

theorem render_format_counterexample:
  "render 1 (Some ''ev'') (String blank_line_payload)
     = ''id: 1 '' @ [LF] @ ''event: ev'' @ [LF] @ ''data: a'' @ [LF] @ ''data: b'' @ [LF, LF]
   \<and> spec_lines blank_line_payload = [''a'', [], ''b'']
   \<and> spec_block 1 ''ev'' blank_line_payload
     = ''id: 1 '' @ [LF] @ ''event: ev'' @ [LF] @ ''data: a'' @ [LF] @ ''data: '' @ [LF]
       @ ''data: b'' @ [LF, LF]
   \<and> render 1 (Some ''ev'') (String blank_line_payload) \<noteq> spec_block 1 ''ev'' blank_line_payload"
proof -
  have sl: "spec_lines blank_line_payload = [''a'', [], ''b'']"
    by (simp add: blank_line_payload_def is_brk_def LF_def CR_def)
  have r: "render 1 (Some ''ev'') (String blank_line_payload)
     = ''id: 1 '' @ [LF] @ ''event: ev'' @ [LF] @ ''data: a'' @ [LF] @ ''data: b'' @ [LF, LF]"
    using render_pieces [of 1 "Some ''ev''" "String blank_line_payload"]
    by (simp add: blank_line_pieces show_int_1 name_truthy_def name_or_def)
  have b: "spec_block 1 ''ev'' blank_line_payload
     = ''id: 1 '' @ [LF] @ ''event: ev'' @ [LF] @ ''data: a'' @ [LF] @ ''data: '' @ [LF]
       @ ''data: b'' @ [LF, LF]"
    by (simp add: spec_block_def sl show_int_1)
  from sl r b show ?thesis by (simp add: LF_def)
qed

theorem render_format_witness:
  "truthy (String blank_line_payload)
   \<and> 0 \<le> historySize (options (SSEChannel no_options False))
   \<and> 0 < historySize (options (SSEChannel no_options False))
   \<and> payload_pieces (String blank_line_payload) = [''a'', ''b'']
   \<and> (\<exists>t. publish (String blank_line_payload) (Some ''ev'') (SSEChannel no_options False)
            = Some (Some 1, t)
          \<and> map msg_output (messages t) = [blank_line_block])
   \<and> CR \<notin> set ''a'' \<and> LF \<notin> set ''a'' \<and> CR \<notin> set ''b'' \<and> LF \<notin> set ''b''"
proof -
  have tr: "truthy (String blank_line_payload) \<or> name_truthy (Some ''ev'')"
    and tr': "truthy (String blank_line_payload)"
    by (simp_all add: blank_line_payload_def)
  have h: "0 \<le> historySize (options (SSEChannel no_options False))"
    "0 < historySize (options (SSEChannel no_options False))"
    "historySize (options (SSEChannel no_options False)) = 1"
    "nextID (SSEChannel no_options False) = 1"
    by (simp_all add: no_options_def dflt_def)
  from render_format [OF tr h(1)] obtain t block where
    t: "publish (String blank_line_payload) (Some ''ev'') (SSEChannel no_options False)
          = Some (Some (nextID (SSEChannel no_options False)), t)"
       "block = ''id: '' @ show_int (nextID (SSEChannel no_options False)) @ '' '' @ [LF]
                     @ (if name_truthy (Some ''ev'') then ''event: '' @ name_or (Some ''ev'') [] @ [LF] else [])
                     @ concat (map (\<lambda>l. ''data: '' @ l @ [LF]) (payload_pieces (String blank_line_payload)))
                     @ [LF]"
       "0 < historySize (options (SSEChannel no_options False)) \<longrightarrow>
                messages t \<noteq> [] \<and> msg_output (last (messages t)) = block"
       "\<forall>l\<in>set (payload_pieces (String blank_line_payload)). \<forall>c\<in>set l. c \<noteq> CR \<and> c \<noteq> LF"
    by blast
  from t(2) have blk: "block = blank_line_block"
    by (simp add: no_options_def dflt_def blank_line_pieces show_int_1 name_truthy_def
          name_or_def blank_line_block_def)
  have len: "length (messages t) \<le> 1"
  proof -
    have "exec (Publish (String blank_line_payload) (Some ''ev'')) (SSEChannel no_options False)
            = Some (Some (nextID (SSEChannel no_options False)), t)"
      using t(1) by simp
    from exec_hist_ok [OF this hist_ok_init] exec_step [OF this] h show ?thesis
      by (simp add: hist_ok_def no_options_def dflt_def)
  qed
  from t(3) h(2) have "messages t \<noteq> []" "msg_output (last (messages t)) = block" by simp_all
  with len have "map msg_output (messages t) = [block]"
    by (cases "messages t") auto
  with blk t(1) t(4) tr' h blank_line_pieces show ?thesis by auto
qed

section \<open>Replay on subscribe\<close>

lemma contig_Cons:
  "contig n (m # ms) \<longleftrightarrow> msg_id m = n - int (length ms) - 1 \<and> contig n ms"
proof -
  have "(\<forall>i<Suc (length ms). msg_id ((m # ms) ! i) = n - int (Suc (length ms)) + int i)
          \<longleftrightarrow> msg_id m = n - int (length ms) - 1
              \<and> (\<forall>j<length ms. msg_id (ms ! j) = n - int (length ms) + int j)"
    by (auto simp: nth_Cons split: nat.splits)
  then show ?thesis by (simp add: contig_nth)
qed

lemma contig_filter_drop:
  "contig n ms \<Longrightarrow>
   filter (\<lambda>m. k < msg_id m) ms = drop (nat (int (length ms) - (n - 1 - k))) ms"
proof (induction ms)
  case Nil
  then show ?case by simp
next
  case (Cons m ms)
  from Cons.prems have id: "msg_id m = n - int (length ms) - 1" and cg: "contig n ms"
    by (simp_all add: contig_Cons)
  from Cons.IH [OF cg] have ih:
    "filter (\<lambda>m. k < msg_id m) ms = drop (nat (int (length ms) - (n - 1 - k))) ms" .
  show ?case
  proof (cases "k < msg_id m")
    case True
    with id have "nat (int (length ms) - (n - 1 - k)) = 0"
      "nat (int (length (m # ms)) - (n - 1 - k)) = 0" by simp_all
    with True ih show ?thesis by simp
  next
    case False
    with id have "nat (int (length (m # ms)) - (n - 1 - k))
                    = Suc (nat (int (length ms) - (n - 1 - k)))" by simp
    with False ih show ?thesis by simp
  qed
qed

lemma slice_negative:
  "0 < r \<Longrightarrow> slice (0 - r) xs = drop (nat (int (length xs) - r)) xs"
proof -
  assume "0 < r"
  moreover have "nat (max (int (length xs) - r) 0) = nat (int (length xs) - r)"
    by (simp add: max_def)
  ultimately show ?thesis by (simp add: slice_def)
qed

text \<open>
  What holds of the replay: for a connection without a filter whose last event id \<open>k\<close> is
  at most \<open>nextID - 1\<close>, on a history with consecutive ids, the messages replayed are
  exactly the buffered entries with an id above \<open>k\<close>, in their order.
\<close>

lemma replay_unfiltered:
  assumes "hist_ok s" and "events c = None" and "lastID (req c) = Some k"
    and "k \<le> nextID s - 1"
  shows "replay c s = filter (\<lambda>m. k < msg_id m) (messages s)"
proof -
  define r where "r = nextID s - 1 - k"
  from assms(1) have cg: "contig (nextID s) (messages s)" by (simp add: hist_ok_def)
  have rw: "rewind_depth (req c) s = r"
    using assms(3) by (simp add: rewind_depth_def r_def)
  have all: "filter (replay_match c) (messages s) = messages s"
    using assms(2) by (simp add: replay_match_def)
  have fd: "filter (\<lambda>m. k < msg_id m) (messages s)
              = drop (nat (int (length (messages s)) - r)) (messages s)"
    unfolding r_def by (rule contig_filter_drop [OF cg])
  show ?thesis
  proof (cases "r = 0")
    case True
    with fd rw show ?thesis by (simp add: replay_def)
  next
    case False
    with assms(4) have "0 < r" by (simp add: r_def)
    from slice_negative [OF this, of "messages s"] fd rw all False show ?thesis
      by (simp add: replay_def Let_def)
  qed
qed

lemma st2_fields:
  "nextID st2 = 3" "map msg_id (messages st2) = [1, 2]" "next_ref st2 = 0"
  "clientRetryInterval (options st2) = 10000"
  "map msg_output (messages st2)
     = [''id: 1 '' @ [LF] @ ''event: ev'' @ [LF] @ ''data: a'' @ [LF, LF],
        ''id: 2 '' @ [LF] @ ''event: ev'' @ [LF] @ ''data: b'' @ [LF, LF]]"
  by code_simp+

lemma parseInt_3: "parseInt ''3'' = Some 3"
  by code_simp

text \<open>
  Claim C1 at a failing input. The channel \<open>st2\<close> holds the messages \<open>1\<close> and \<open>2\<close> and
  its next id is \<open>3\<close>. A client subscribes with \<open>Last-Event-ID: 3\<close>, so \<open>k = 3 \<ge> nextID - 1\<close>
  and the replay depth is \<open>-1\<close>. The claim says that nothing is replayed; the test
  \<open>if (rewind)\<close> lets the negative depth through, \<open>slice(0 - rewind)\<close> becomes \<open>slice(1)\<close>,
  and message \<open>2\<close>, whose id is not above \<open>k\<close>, is written after the retry line.
\<close>

theorem replay_future_id:
  "nextID st2 = 3 \<and> map msg_id (messages st2) = [1, 2]
   \<and> lastID (req conn_future) = Some 3
   \<and> rewind_depth (req conn_future) st2 = - 1
   \<and> map msg_id (replay conn_future st2) = [2]
   \<and> fst (subscribe \<lparr>last_event_id = Some ''3''\<rparr> 7 None st2) = conn_future
   \<and> responses (snd (subscribe \<lparr>last_event_id = Some ''3''\<rparr> 7 None st2)) 7
       = responses st2 7
         @ [WriteHead 200 sse_headers, FlushHeaders,
            Write (''retry: '' @ show_int 10000 @ [LF, LF]
                   @ ''id: 2 '' @ [LF] @ ''event: ev'' @ [LF] @ ''data: b'' @ [LF, LF]),
            On ''close'', On ''error'', On ''finish'']"
proof -
  have l: "lastID (req conn_future) = Some 3"
    by (simp add: lastID_def conn_future_def parseInt_3)
  then have rw: "rewind_depth (req conn_future) st2 = - 1"
    by (simp add: rewind_depth_def st2_fields)
  have ev: "filter (replay_match conn_future) (messages st2) = messages st2"
    by (simp add: replay_match_def conn_future_def)
  have len: "length (messages st2) = 2"
    using st2_fields(2) by (metis length_map length_Cons list.size(3) numeral_2_eq_2)
  have rp: "replay conn_future st2 = drop 1 (messages st2)"
    by (simp add: replay_def rw ev slice_def)
  have ids: "map msg_id (replay conn_future st2) = [2]"
    unfolding rp using st2_fields(2) by (simp add: drop_map [symmetric])
  have outs: "map msg_output (replay conn_future st2)
                = [''id: 2 '' @ [LF] @ ''event: ev'' @ [LF] @ ''data: b'' @ [LF, LF]]"
    unfolding rp using st2_fields(5) by (simp add: drop_map [symmetric])
  have c: "fst (subscribe \<lparr>last_event_id = Some ''3''\<rparr> 7 None st2) = conn_future"
    by (simp add: subscribe_writes st2_fields conn_future_def)
  have w: "responses (snd (subscribe \<lparr>last_event_id = Some ''3''\<rparr> 7 None st2)) 7
       = responses st2 7
         @ [WriteHead 200 sse_headers, FlushHeaders,
            Write (''retry: '' @ show_int 10000 @ [LF, LF]
                   @ concat (map msg_output (replay conn_future st2))),
            On ''close'', On ''error'', On ''finish'']"
    by (simp add: subscribe_writes st2_fields conn_future_def)
  from l rw ids c w [unfolded outs] st2_fields(1,2) show ?thesis by simp
qed

text \<open>
  A second failing input of claim C1: the history is filtered before it is sliced. With
  messages \<open>1\<close> (named \<open>x\<close>) and \<open>2\<close> (named \<open>y\<close>), a client with the filter \<open>x\<close> and
  \<open>Last-Event-ID: 1\<close> has depth \<open>1\<close> and is sent message \<open>1\<close> again.
\<close>

lemma replay_filtered_seen_id:
  "map msg_id (messages st_xy) = [1, 2]"
  "map msg_eventName (messages st_xy) = [''x'', ''y'']"
  "nextID st_xy = 3"
  "lastID (req conn_x_seen) = Some 1"
  "map msg_id (replay conn_x_seen st_xy) = [1]"
  by code_simp+

end
